theory Spec2Isabelle
  imports Main
begin

section \<open>Paths\<close>

text \<open>
  A path (\<open>fs::u8path\<close>) is its native POSIX string. The functions below are the
  members of \<open>std::filesystem::path\<close> that \<open>util.cpp\<close> calls.
\<close>

type_synonym path = string

definition is_absolute :: "path \<Rightarrow> bool" where
  "is_absolute p = (case p of [] \<Rightarrow> False | c # _ \<Rightarrow> c = CHR ''/'')"

text \<open>\<open>operator/\<close>: an absolute right operand replaces the left one; otherwise a
  separator is inserted unless the left operand is empty or already ends in one.\<close>

definition path_join :: "path \<Rightarrow> path \<Rightarrow> path" where
  "path_join p q =
     (if is_absolute q then q
      else if p = [] \<or> last p = CHR ''/'' then p @ q
      else p @ ''/'' @ q)"

definition filename :: "path \<Rightarrow> string" where
  "filename p = rev (takeWhile (\<lambda>c. c \<noteq> CHR ''/'') (rev p))"

text \<open>\<open>extension()\<close>: from the rightmost period of the file name to its end; empty for
  \<open>.\<close>, \<open>..\<close>, a name without a period, and a name whose only period comes first.\<close>

definition extension :: "path \<Rightarrow> string" where
  "extension p =
     (let f = filename p;
          e = rev (takeWhile (\<lambda>c. c \<noteq> CHR ''.'') (rev f))
      in if CHR ''.'' \<notin> set f \<or> f = ''.'' \<or> f = ''..'' then []
         else if length f = Suc (length e) then []
         else CHR ''.'' # e)"

text \<open>\<open>replace_extension(r)\<close>: drops the extension, adds a period when \<open>r\<close> is not
  empty and does not start with one, then adds \<open>r\<close>.\<close>

definition replace_extension :: "path \<Rightarrow> string \<Rightarrow> path" where
  "replace_extension p r =
     take (length p - length (extension p)) p
       @ (if r \<noteq> [] \<and> hd r \<noteq> CHR ''.'' then ''.'' else [])
       @ r"

text \<open>\<open>std::to_string\<close> on an unsigned counter: its decimal digits.\<close>

definition digit :: "nat \<Rightarrow> char" where
  "digit d = ''0123456789'' ! d"

fun to_string :: "nat \<Rightarrow> string" where
  "to_string n = (if n < 10 then [digit n] else to_string (n div 10) @ [digit (n mod 10)])"

declare to_string.simps [simp del]

text \<open>Splitting a path at its separators; empty pieces (doubled or trailing separators,
  the root) are dropped, so the pieces of an absolute path are its names below the root.\<close>

fun pieces :: "string \<Rightarrow> string \<Rightarrow> string list" where
  "pieces cur [] = (if cur = [] then [] else [rev cur])"
| "pieces cur (c # cs) =
     (if c = CHR ''/'' then (if cur = [] then pieces [] cs else rev cur # pieces [] cs)
      else pieces (c # cur) cs)"

definition components :: "path \<Rightarrow> string list" where
  "components p = pieces [] p"

text \<open>Lexical normalisation of a list of names below the root: \<open>.\<close> is dropped and
  \<open>..\<close> removes the name before it (and is dropped at the root).\<close>

definition normal_step :: "string list \<Rightarrow> string \<Rightarrow> string list" where
  "normal_step acc c =
     (if c = ''.'' then acc else if c = ''..'' then butlast acc else acc @ [c])"

definition normalize :: "string list \<Rightarrow> string list" where
  "normalize cs = foldl normal_step [] cs"

fun join_names :: "string list \<Rightarrow> string" where
  "join_names [] = []"
| "join_names [c] = c"
| "join_names (c # cs) = c @ ''/'' @ join_names cs"

fun strip_common :: "string list \<Rightarrow> string list \<Rightarrow> string list \<times> string list" where
  "strip_common (a # as) (b # bs) = (if a = b then strip_common as bs else (a # as, b # bs))"
| "strip_common as bs = (as, bs)"

text \<open>\<open>lexically_relative\<close> on two normalised absolute locations: one \<open>..\<close> for each
  name left of the base after the common prefix, then what is left of the path;
  \<open>.\<close> when nothing is left on either side.\<close>

definition lexically_relative :: "string list \<Rightarrow> string list \<Rightarrow> path" where
  "lexically_relative p base =
     (case strip_common p base of
        (ps, bs) \<Rightarrow> if ps = [] \<and> bs = [] then ''.''
                    else join_names (replicate (length bs) ''..'' @ ps))"

section \<open>The file system and its environment\<close>

text \<open>
  The file system is a table from locations to nodes. A location is the normalised list
  of names below the root, so every spelling of a path that \<open>resolve\<close> maps to the
  same location names the same node. Symbolic links are followed at the last name only:
  the directories on the way to a file are taken not to be links.

  What other processes do is an environment indexed by the clock (in seconds): whether
  removing or renaming a location is refused (a file held open elsewhere), and whether
  another process holds the byte lock of a marker file. Only \<open>sleep_for\<close> and the
  blocking lock calls advance the clock.

  \<open>target_prefix\<close> and \<open>use_lockfiles\<close> are the fields of \<open>Context::instance()\<close>
  that the code reads.
\<close>

type_synonym location = "string list"

datatype node = File string | Dir | Symlink path

datatype file_type = not_found | regular | directory | symlink

record world =
  cwd :: path
  nodes :: "(location \<times> node) list"
  clock :: nat
  slept :: "nat list"
  remove_denied :: "nat \<Rightarrow> location \<Rightarrow> bool"
  rename_denied :: "nat \<Rightarrow> location \<Rightarrow> bool"
  locked_elsewhere :: "nat \<Rightarrow> location \<Rightarrow> bool"
  target_prefix :: path
  use_lockfiles :: bool

definition resolve :: "('a world_scheme) \<Rightarrow> path \<Rightarrow> location" where
  "resolve w p = normalize (components (path_join (cwd w) p))"

definition node_at :: "('a world_scheme) \<Rightarrow> location \<Rightarrow> node option" where
  "node_at w k = (if k = [] then Some Dir else map_of (nodes w) k)"

definition is_under :: "location \<Rightarrow> location \<Rightarrow> bool" where
  "is_under d k = (length d < length k \<and> take (length d) k = d)"

definition has_children :: "('a world_scheme) \<Rightarrow> location \<Rightarrow> bool" where
  "has_children w k = list_ex (\<lambda>e. is_under k (fst e)) (nodes w)"

text \<open>Following the links at the last name, at most \<open>n\<close> of them (the system gives up
  with \<open>ELOOP\<close>, here \<open>None\<close>). The result is where the chain ends, present or not.\<close>

fun follow :: "nat \<Rightarrow> ('a world_scheme) \<Rightarrow> location \<Rightarrow> location option" where
  "follow 0 w k = None"
| "follow (Suc n) w k =
     (case node_at w k of
        Some (Symlink t) \<Rightarrow>
          follow n w (normalize (if is_absolute t then components t
                                 else butlast k @ components t))
      | _ \<Rightarrow> Some k)"

definition type_of :: "node option \<Rightarrow> file_type" where
  "type_of n = (case n of None \<Rightarrow> not_found | Some (File _) \<Rightarrow> regular
                | Some Dir \<Rightarrow> directory | Some (Symlink _) \<Rightarrow> symlink)"

text \<open>\<open>fs::symlink_status\<close> looks at the node itself, \<open>fs::status\<close> follows links.\<close>

definition symlink_status :: "('a world_scheme) \<Rightarrow> path \<Rightarrow> file_type" where
  "symlink_status w p = type_of (node_at w (resolve w p))"

definition status :: "('a world_scheme) \<Rightarrow> path \<Rightarrow> file_type" where
  "status w p = (case follow 40 w (resolve w p) of None \<Rightarrow> not_found
                 | Some k \<Rightarrow> type_of (node_at w k))"

definition fs_exists :: "('a world_scheme) \<Rightarrow> path \<Rightarrow> bool" where
  "fs_exists w p = (status w p \<noteq> not_found)"

definition is_directory :: "('a world_scheme) \<Rightarrow> path \<Rightarrow> bool" where
  "is_directory w p = (status w p = directory)"

text \<open>\<open>lexists\<close> (both overloads), with the source's disjunction.\<close>

definition lexists :: "('a world_scheme) \<Rightarrow> path \<Rightarrow> bool" where
  "lexists w p = (let st = symlink_status w p in st \<noteq> not_found \<or> st = symlink)"

text \<open>\<open>fs::remove(p, ec)\<close>: the returned flag, whether \<open>ec\<close> is set, and the new
  world. A missing path is no error; a refused removal and a directory that is not empty
  are.\<close>

definition fs_remove :: "path \<Rightarrow> ('a world_scheme) \<Rightarrow> bool \<times> bool \<times> ('a world_scheme)" where
  "fs_remove p w =
     (let k = resolve w p in
      case node_at w k of
        None \<Rightarrow> (False, False, w)
      | Some n \<Rightarrow>
          if k = [] \<or> remove_denied w (clock w) k \<or> (n = Dir \<and> has_children w k)
          then (False, True, w)
          else (True, False, w\<lparr>nodes := filter (\<lambda>e. fst e \<noteq> k) (nodes w)\<rparr>))"

definition size_max :: nat where
  "size_max = 2 ^ 64 - 1"

text \<open>\<open>fs::remove_all(p, ec)\<close>: removes the node and, for a directory, everything
  below it, and returns how many nodes went; when any of them is refused it returns
  \<open>static_cast<uintmax_t>(-1)\<close> with \<open>ec\<close> set. Which nodes a failing call has
  already removed depends on the iteration order, which is unspecified; the model
  removes none.\<close>

definition fs_remove_all :: "path \<Rightarrow> ('a world_scheme) \<Rightarrow> nat \<times> bool \<times> ('a world_scheme)" where
  "fs_remove_all p w =
     (let k = resolve w p in
      case node_at w k of
        None \<Rightarrow> (0, False, w)
      | Some n \<Rightarrow>
          (let doomed = (\<lambda>k'. k' = k \<or> (n = Dir \<and> is_under k k'));
               gone = filter doomed (remdups (map fst (nodes w)))
           in if k = [] \<or> list_ex (remove_denied w (clock w)) gone
              then (size_max, True, w)
              else (length gone, False,
                    w\<lparr>nodes := filter (\<lambda>e. \<not> doomed (fst e)) (nodes w)\<rparr>)))"

text \<open>\<open>fs::rename(from, to, ec)\<close>: whether \<open>ec\<close> is set, and the new world. The node
  moves with everything below it and replaces what was at the target.\<close>

definition fs_rename :: "path \<Rightarrow> path \<Rightarrow> ('a world_scheme) \<Rightarrow> bool \<times> ('a world_scheme)" where
  "fs_rename old new w =
     (let ko = resolve w old; kn = resolve w new in
      case node_at w ko of
        None \<Rightarrow> (True, w)
      | Some n \<Rightarrow>
          if ko = [] \<or> kn = [] \<or> rename_denied w (clock w) ko then (True, w)
          else if ko = kn then (False, w)
          else if is_under ko kn \<or> node_at w (butlast kn) \<noteq> Some Dir then (True, w)
          else if (case node_at w kn of None \<Rightarrow> False
                   | Some Dir \<Rightarrow> n \<noteq> Dir \<or> has_children w kn
                   | Some _ \<Rightarrow> n = Dir) then (True, w)
          else (False,
                w\<lparr>nodes :=
                    map (\<lambda>e. if fst e = ko \<or> is_under ko (fst e)
                             then (kn @ drop (length ko) (fst e), snd e) else e)
                      (filter (\<lambda>e. fst e \<noteq> kn \<and> \<not> is_under kn (fst e)) (nodes w))\<rparr>))"

text \<open>\<open>std::this_thread::sleep_for(std::chrono::seconds(n))\<close>.\<close>

definition sleep_for :: "nat \<Rightarrow> ('a world_scheme) \<Rightarrow> ('a world_scheme)" where
  "sleep_for n w = w\<lparr>clock := clock w + n, slept := slept w @ [n]\<rparr>"

text \<open>\<open>fs::relative(p, base)\<close> is \<open>weakly_canonical(p).lexically_relative(
  weakly_canonical(base))\<close>; \<open>weakly_canonical\<close> follows the links of a path that
  exists and only normalises one that does not.\<close>

definition weakly_canonical :: "('a world_scheme) \<Rightarrow> path \<Rightarrow> location" where
  "weakly_canonical w p =
     (let k = resolve w p in
      case follow 40 w k of
        None \<Rightarrow> k
      | Some k' \<Rightarrow> if node_at w k' = None then k else k')"

definition fs_relative :: "('a world_scheme) \<Rightarrow> path \<Rightarrow> path \<Rightarrow> path" where
  "fs_relative w p base = lexically_relative (weakly_canonical w p) (weakly_canonical w base)"

text \<open>Streams. \<open>open_ofstream\<close> opens (and creates) the file behind the links of
  the path; when that fails it only logs and returns a stream that is not good, on which
  every later \<open>operator<<\<close> does nothing. A good stream is the location it writes to.\<close>

datatype openmode = app | trunc

definition put_file :: "location \<Rightarrow> string \<Rightarrow> ('a world_scheme) \<Rightarrow> ('a world_scheme)" where
  "put_file k c w = w\<lparr>nodes := map (\<lambda>e. if fst e = k then (k, File c) else e) (nodes w)\<rparr>"

definition open_ofstream ::
  "path \<Rightarrow> openmode \<Rightarrow> ('a world_scheme) \<Rightarrow> location option \<times> ('a world_scheme)" where
  "open_ofstream p mode w =
     (case follow 40 w (resolve w p) of
        None \<Rightarrow> (None, w)
      | Some k \<Rightarrow>
          (case node_at w k of
             Some (File c) \<Rightarrow> (Some k, if mode = trunc then put_file k [] w else w)
           | Some _ \<Rightarrow> (None, w)
           | None \<Rightarrow>
               if node_at w (butlast k) = Some Dir
               then (Some k, w\<lparr>nodes := nodes w @ [(k, File [])]\<rparr>)
               else (None, w)))"

definition stream_put :: "location option \<Rightarrow> string \<Rightarrow> ('a world_scheme) \<Rightarrow> ('a world_scheme)" where
  "stream_put s str w =
     (case s of
        None \<Rightarrow> w
      | Some k \<Rightarrow> (case node_at w k of Some (File c) \<Rightarrow> put_file k (c @ str) w | _ \<Rightarrow> w))"


datatype error = runtime_error string | system_error string | lockfile_failure string




section \<open>The safe remover: \<open>remove_or_rename\<close>\<close>

definition trash_index_path :: "path \<Rightarrow> path" where
  "trash_index_path prefix = path_join (path_join prefix ''conda-meta'') ''mamba_trash.txt''"

definition base_trash_file :: "path \<Rightarrow> path" where
  "base_trash_file p = replace_extension p (extension p @ ''.mamba_trash'')"

definition numbered_trash_file :: "path \<Rightarrow> nat \<Rightarrow> path" where
  "numbered_trash_file p fcounter =
     replace_extension p (extension p @ to_string fcounter @ ''.mamba_trash'')"

text \<open>The inner loop \<open>while (lexists(trash_file))\<close>, entered with the current
  \<open>trash_file\<close> and \<open>fcounter\<close>.\<close>

function trash_file_loop ::
  "('a world_scheme) \<Rightarrow> path \<Rightarrow> path \<Rightarrow> nat \<Rightarrow> error + path" where
  "trash_file_loop w p trash_file fcounter =
     (if lexists w trash_file
      then (let trash_file' = numbered_trash_file p fcounter;
                fcounter' = fcounter + 1
            in if fcounter' > 100
               then Inl (runtime_error ''Too many existing trash files. Please force clean'')
               else trash_file_loop w p trash_file' fcounter')
      else Inr trash_file)"
  by pat_completeness auto
termination
  by (relation "measure (\<lambda>(w, p, t, fcounter). 101 - fcounter)") auto

declare trash_file_loop.simps [simp del]

definition trash_file_name :: "('a world_scheme) \<Rightarrow> path \<Rightarrow> error + path" where
  "trash_file_name w p = trash_file_loop w p (base_trash_file p) 0"

text \<open>The outer loop \<open>while (ec)\<close>, entered with \<open>ec\<close> set and the current
  \<open>counter\<close>. Each round ends in a return, a throw, or a sleep after which \<open>ec\<close> is
  still set.\<close>

function rename_loop ::
  "path \<Rightarrow> nat \<Rightarrow> ('a world_scheme) \<Rightarrow> (error + nat) \<times> ('a world_scheme)" where
  "rename_loop p counter w =
     (case trash_file_name w p of
        Inl e \<Rightarrow> (Inl e, w)
      | Inr trash_file \<Rightarrow>
          (case fs_rename p trash_file w of
             (False, w1) \<Rightarrow>
               (case open_ofstream (trash_index_path (target_prefix w1)) app w1 of
                  (trash_index, w2) \<Rightarrow>
                    (Inr 1,
                     stream_put trash_index
                       (fs_relative w2 trash_file (target_prefix w2) @ [CHR 0x0A]) w2))
           | (True, w1) \<Rightarrow>
               (let counter' = counter + 1
                in if counter' > 3
                   then (Inl (runtime_error (''Could not delete file '' @ p)), w1)
                   else rename_loop p counter' (sleep_for (counter' * 2) w1))))"
  by pat_completeness auto
termination
  by (relation "measure (\<lambda>(p, counter, w). 4 - counter)") auto

declare rename_loop.simps [simp del]

text \<open>The direct removal: \<open>remove_all\<close> for a directory, \<open>remove\<close> otherwise, with
  the \<open>bool\<close> of \<open>remove\<close> converted to \<open>std::size_t\<close>.\<close>

definition direct_remove :: "path \<Rightarrow> ('a world_scheme) \<Rightarrow> nat \<times> bool \<times> ('a world_scheme)" where
  "direct_remove p w =
     (if is_directory w p then fs_remove_all p w
      else (case fs_remove p w of (r, ec, w') \<Rightarrow> ((if r then 1 else 0), ec, w')))"

definition remove_or_rename ::
  "path \<Rightarrow> ('a world_scheme) \<Rightarrow> (error + nat) \<times> ('a world_scheme)" where
  "remove_or_rename p w =
     (if \<not> lexists w p then (Inr 0, w)
      else (case direct_remove p w of
              (result, ec, w') \<Rightarrow> if ec then rename_loop p 0 w' else (Inr result, w')))"

section \<open>The trash reclaimer: \<open>clean_trash_files\<close>\<close>







section \<open>The lock subsystem\<close>

text \<open>
  The build target decides the \<open>#ifdef _WIN32\<close> branches. A process is a world
  together with its open descriptors, the byte locks it holds on marker files, the
  \<open>LockFileOwner\<close> objects behind \<open>std::shared_ptr\<close> (each with its use count; a
  handle is the index of its object, and a weak pointer is expired when the count is 0),
  and the two tables of \<open>LockedFilesRegistry\<close>.
\<close>

datatype platform = Posix | Windows

record LockFileOwner =
  m_path :: path
  m_lockfile_path :: path
  m_timeout :: int
  m_fd :: int
  m_locked :: bool
  m_lockfile_existed :: bool

record process = world +
  platform :: platform
  open_fds :: "(int \<times> location) list"
  os_locks :: "(int \<times> location) list"
  owners :: "(LockFileOwner \<times> nat) list"
  locked_files :: "(path \<times> nat) list"
  fd_to_locked_path :: "(int \<times> path) list"

subsection \<open>System calls on descriptors\<close>

definition fresh_fd :: "(int \<times> location) list \<Rightarrow> int" where
  "fresh_fd fds = fold max (map fst fds) 2 + 1"

text \<open>\<open>open(path, O_RDWR | O_CREAT, 0666)\<close>: the new descriptor, or -1.\<close>

definition os_open :: "path \<Rightarrow> process \<Rightarrow> int \<times> process" where
  "os_open p s =
     (case follow 40 s (resolve s p) of
        None \<Rightarrow> (- 1, s)
      | Some k \<Rightarrow>
          (case node_at s k of
             Some (File c) \<Rightarrow>
               (let fd = fresh_fd (open_fds s) in (fd, s\<lparr>open_fds := (fd, k) # open_fds s\<rparr>))
           | Some _ \<Rightarrow> (- 1, s)
           | None \<Rightarrow>
               if node_at s (butlast k) = Some Dir
               then (let fd = fresh_fd (open_fds s)
                     in (fd, s\<lparr>nodes := nodes s @ [(k, File [])],
                               open_fds := (fd, k) # open_fds s\<rparr>))
               else (- 1, s)))"

text \<open>\<open>close(fd)\<close>. On POSIX closing any descriptor of a file drops every record lock
  the process holds on that file; on Windows the locks taken through the descriptor go.\<close>

definition os_close :: "int \<Rightarrow> process \<Rightarrow> int \<times> process" where
  "os_close fd s =
     (case map_of (open_fds s) fd of
        None \<Rightarrow> (- 1, s)
      | Some k \<Rightarrow>
          (0, s\<lparr>open_fds := filter (\<lambda>e. fst e \<noteq> fd) (open_fds s),
                 os_locks := filter (\<lambda>e. if platform s = Posix then snd e \<noteq> k
                                            else fst e \<noteq> fd) (os_locks s)\<rparr>))"

text \<open>Whether a lock on the byte at \<open>MAMBA_LOCK_POS\<close> would be granted now: no other
  process holds it, and on Windows this process does not hold it either.\<close>

definition lock_free :: "process \<Rightarrow> int \<Rightarrow> bool" where
  "lock_free s fd =
     (case map_of (open_fds s) fd of
        None \<Rightarrow> False
      | Some k \<Rightarrow> \<not> locked_elsewhere s (clock s) k \<and>
                  (platform s = Posix \<or> k \<notin> snd ` set (os_locks s)))"

definition take_lock :: "process \<Rightarrow> int \<Rightarrow> process" where
  "take_lock s fd =
     (case map_of (open_fds s) fd of
        None \<Rightarrow> s
      | Some k \<Rightarrow> s\<lparr>os_locks := (fd, k) # os_locks s\<rparr>)"

text \<open>\<open>fcntl(fd, F_SETLK, &lock)\<close> and \<open>_locking(fd, LK_NBLCK, 1)\<close>.\<close>

definition try_lock :: "int \<Rightarrow> process \<Rightarrow> int \<times> process" where
  "try_lock fd s = (if lock_free s fd then (0, take_lock s fd) else (- 1, s))"

text \<open>\<open>fcntl(fd, F_SETLKW, &lock)\<close>: returns once the lock is granted, however long
  that takes; \<open>None\<close> when it never is.\<close>

partial_function (option) fcntl_setlkw :: "int \<Rightarrow> process \<Rightarrow> (int \<times> process) option" where
  "fcntl_setlkw fd s =
     (if map_of (open_fds s) fd = None then Some (- 1, s)
      else if lock_free s fd then Some (0, take_lock s fd)
      else fcntl_setlkw fd (s\<lparr>clock := clock s + 1\<rparr>))"

text \<open>\<open>timedout_set_fd_lock\<close>: a worker thread makes the \<open>F_SETLKW\<close> call while the
  caller waits for its signal for at most \<open>timeout\<close> seconds, then cancels the worker
  and reports -1. The first argument counts the seconds left.\<close>

fun timedout_set_fd_lock :: "nat \<Rightarrow> int \<Rightarrow> process \<Rightarrow> int \<times> process" where
  "timedout_set_fd_lock 0 fd s = (- 1, s)"
| "timedout_set_fd_lock (Suc n) fd s =
     (if map_of (open_fds s) fd = None then (- 1, s)
      else if lock_free s fd then (0, take_lock s fd)
      else timedout_set_fd_lock n fd (s\<lparr>clock := clock s + 1\<rparr>))"

text \<open>The Windows polling loop \<open>while (now - begin_time < timeout)\<close>: one attempt and
  one second of sleep per round. The first argument counts the rounds left, \<open>ret\<close> is
  the value the variable holds.\<close>

fun locking_loop :: "nat \<Rightarrow> int \<Rightarrow> int \<Rightarrow> process \<Rightarrow> int \<times> process" where
  "locking_loop 0 fd ret s = (ret, s)"
| "locking_loop (Suc n) fd ret s =
     (case try_lock fd s of
        (r, s') \<Rightarrow> if r = 0 then (r, s') else locking_loop n fd r (sleep_for 1 s'))"

text \<open>\<open>_locking(fd, LK_UNLCK, 1)\<close>.\<close>

definition os_unlock :: "int \<Rightarrow> process \<Rightarrow> int \<times> process" where
  "os_unlock fd s =
     (if fd \<in> fst ` set (os_locks s)
      then (0, s\<lparr>os_locks := filter (\<lambda>e. fst e \<noteq> fd) (os_locks s)\<rparr>)
      else (- 1, s))"

subsection \<open>\<open>LockFileOwner\<close>\<close>

definition default_timeout :: int where
  "default_timeout = 30"

definition set_fd_lock :: "bool \<Rightarrow> LockFileOwner \<Rightarrow> process \<Rightarrow> (bool \<times> process) option" where
  "set_fd_lock blocking this s =
     (case platform s of
        Windows \<Rightarrow>
          (if blocking
           then (let timeout = (if m_timeout this > 0 then m_timeout this else default_timeout)
                 in case locking_loop (nat timeout) (m_fd this) 0 s of
                      (ret, s') \<Rightarrow> Some (ret = 0, s'))
           else (case try_lock (m_fd this) s of (ret, s') \<Rightarrow> Some (ret = 0, s')))
      | Posix \<Rightarrow>
          (if blocking
           then (if m_timeout this \<noteq> 0
                 then (case timedout_set_fd_lock (nat (m_timeout this)) (m_fd this) s of
                         (ret, s') \<Rightarrow> Some (ret = 0, s'))
                 else (case fcntl_setlkw (m_fd this) s of
                         None \<Rightarrow> None
                       | Some (ret, s') \<Rightarrow> Some (ret = 0, s')))
           else (case try_lock (m_fd this) s of (ret, s') \<Rightarrow> Some (ret = 0, s'))))"

definition lock :: "bool \<Rightarrow> LockFileOwner \<Rightarrow> process \<Rightarrow> (bool \<times> process) option" where
  "lock blocking this s =
     (case set_fd_lock blocking this s of
        None \<Rightarrow> None
      | Some (ok, s') \<Rightarrow> if \<not> ok then Some (False, s') else Some (True, s'))"

definition lock_blocking :: "LockFileOwner \<Rightarrow> process \<Rightarrow> (bool \<times> process) option" where
  "lock_blocking this s = lock True this s"

definition close_fd :: "LockFileOwner \<Rightarrow> process \<Rightarrow> int \<times> LockFileOwner \<times> process" where
  "close_fd this s =
     (if m_fd this > - 1
      then (case os_close (m_fd this) s of (ret, s') \<Rightarrow> (ret, this\<lparr>m_fd := - 1\<rparr>, s'))
      else (0, this, s))"

definition remove_lockfile :: "LockFileOwner \<Rightarrow> process \<Rightarrow> LockFileOwner \<times> process" where
  "remove_lockfile this s =
     (case close_fd this s of
        (ret, this', s') \<Rightarrow>
          if \<not> m_lockfile_existed this'
          then (case fs_remove (m_lockfile_path this') s' of (r, ec, s'') \<Rightarrow> (this', s''))
          else (this', s'))"

definition unlock :: "LockFileOwner \<Rightarrow> process \<Rightarrow> bool \<times> LockFileOwner \<times> process" where
  "unlock this s =
     (case (if platform s = Windows then os_unlock (m_fd this) s else (0, s)) of
        (ret, s1) \<Rightarrow>
          (case remove_lockfile this s1 of (this', s2) \<Rightarrow> (ret = 0, this', s2)))"

subsection \<open>\<open>LockedFilesRegistry\<close>\<close>

definition absolute :: "('a world_scheme) \<Rightarrow> path \<Rightarrow> path" where
  "absolute w p = path_join (cwd w) p"

definition expired :: "process \<Rightarrow> nat \<Rightarrow> bool" where
  "expired s h = (h \<ge> length (owners s) \<or> snd (owners s ! h) = 0)"

text \<open>\<open>is_locked(const fs::u8path&)\<close>: the absolute path is computed and then not
  used; the table is searched for the path as given.\<close>

definition is_locked :: "process \<Rightarrow> path \<Rightarrow> bool" where
  "is_locked s file_path =
     (let absolute_file_path = absolute s file_path
      in case map_of (locked_files s) file_path of
           Some h \<Rightarrow> \<not> expired s h
         | None \<Rightarrow> False)"

definition is_locked_fd :: "process \<Rightarrow> int \<Rightarrow> bool" where
  "is_locked_fd s fd =
     (case map_of (fd_to_locked_path s) fd of
        Some p \<Rightarrow> is_locked s p
      | None \<Rightarrow> False)"

definition lock_non_blocking :: "LockFileOwner \<Rightarrow> process \<Rightarrow> (bool \<times> process) option" where
  "lock_non_blocking this s =
     (if is_locked s (m_lockfile_path this) then Some (True, s) else lock False this s)"

definition lock_error :: "string \<Rightarrow> error" where
  "lock_error error_message =
     lockfile_failure (''LockFile acquisition failed, aborting: '' @ error_message)"

text \<open>The marker of a directory lies inside it and carries its name; the marker of a
  file lies beside it.\<close>

definition lockfile_path_for :: "('a world_scheme) \<Rightarrow> path \<Rightarrow> path" where
  "lockfile_path_for s path' =
     (if is_directory s path' then path_join path' (filename path' @ ''.lock'')
      else path' @ ''.lock'')"

text \<open>The message of the constructor's last \<open>throw_lock_error\<close>.\<close>

definition cannot_set_message :: "path \<Rightarrow> string" where
  "cannot_set_message path' =
     ''LockFile can'' @ [CHR 0x27] @ ''t be set at '' @ [CHR 0x27] @ path' @ [CHR 0x27]
     @ [CHR 0x0A] @ ''This could be fixed by changing the locks'' @ [CHR 0x27]
     @ '' timeout or cleaning your environment from previous runs''"

text \<open>The constructor. It returns the object or the error it throws, and \<open>None\<close> when
  the blocking attempt never returns.\<close>

definition LockFileOwner_new ::
  "path \<Rightarrow> int \<Rightarrow> process \<Rightarrow> ((error + LockFileOwner) \<times> process) option" where
  "LockFileOwner_new path' timeout s =
     (if \<not> fs_exists s path'
      then Some (Inl (lock_error (''Could not lock non-existing path '' @ [CHR 0x27] @ path'
                                    @ [CHR 0x27])), s)
      else
        (let lockfile_path = lockfile_path_for s path';
             existed = fs_exists s lockfile_path
         in case os_open lockfile_path s of
              (fd, s1) \<Rightarrow>
                (let this = \<lparr>m_path = path', m_lockfile_path = lockfile_path,
                              m_timeout = timeout, m_fd = fd, m_locked = False,
                              m_lockfile_existed = existed\<rparr>
                 in if fd \<le> 0
                    then (case unlock this s1 of
                            (r, this', s2) \<Rightarrow>
                              Some (Inl (lock_error (''Could not open lockfile '' @ [CHR 0x27]
                                                       @ lockfile_path @ [CHR 0x27])), s2))
                    else
                      (case lock_non_blocking this s1 of
                         None \<Rightarrow> None
                       | Some (locked, s2) \<Rightarrow>
                           (case (if locked = False then lock_blocking this s2
                                  else Some (locked, s2)) of
                              None \<Rightarrow> None
                            | Some (locked', s3) \<Rightarrow>
                                if locked' then Some (Inr (this\<lparr>m_locked := True\<rparr>), s3)
                                else (case unlock (this\<lparr>m_locked := False\<rparr>) s3 of
                                        (r, this', s4) \<Rightarrow>
                                          Some (Inl (lock_error (cannot_set_message path')),
                                                s4)))))))"

definition insert_or_assign :: "'k \<Rightarrow> 'v \<Rightarrow> ('k \<times> 'v) list \<Rightarrow> ('k \<times> 'v) list" where
  "insert_or_assign k v m = (k, v) # filter (\<lambda>e. fst e \<noteq> k) m"

text \<open>\<open>acquire_lock\<close>. The result is the \<open>tl::expected\<close> it returns: an error, or a
  shared pointer, which is empty (\<open>None\<close>) or a handle. \<open>weak_ptr::lock\<close> on a live
  entry adds one to the use count.\<close>

definition acquire_lock ::
  "path \<Rightarrow> int \<Rightarrow> process \<Rightarrow> ((error + nat option) \<times> process) option" where
  "acquire_lock file_path timeout s =
     (if \<not> use_lockfiles s then Some (Inr None, s)
      else
        (let absolute_file_path = absolute s file_path
         in case (case map_of (locked_files s) absolute_file_path of
                    Some h \<Rightarrow> if expired s h then None else Some h
                  | None \<Rightarrow> None) of
              Some h \<Rightarrow>
                Some (Inr (Some h),
                      s\<lparr>owners := (owners s)[h := (fst (owners s ! h), Suc (snd (owners s ! h)))]\<rparr>)
            | None \<Rightarrow>
                (case LockFileOwner_new absolute_file_path timeout s of
                   None \<Rightarrow> None
                 | Some (Inl e, s') \<Rightarrow> Some (Inl e, s')
                 | Some (Inr lockedfile, s') \<Rightarrow>
                     Some (Inr (Some (length (owners s'))),
                           s'\<lparr>owners := owners s' @ [(lockedfile, 1)],
                              locked_files :=
                                insert_or_assign absolute_file_path (length (owners s'))
                                  (locked_files s'),
                              fd_to_locked_path :=
                                insert_or_assign (m_fd lockedfile) absolute_file_path
                                  (fd_to_locked_path s')\<rparr>))))"

text \<open>Dropping one shared pointer to a handle: the use count goes down by one, and the
  owner holding the last one runs the destructor, which calls \<open>unlock\<close>.\<close>

definition drop_handle :: "nat \<Rightarrow> process \<Rightarrow> process" where
  "drop_handle h s =
     (if expired s h then s
      else (case owners s ! h of
              (this, n) \<Rightarrow>
                if n > 1 then s\<lparr>owners := (owners s)[h := (this, n - 1)]\<rparr>
                else (case unlock this s of
                        (r, this', s') \<Rightarrow> s'\<lparr>owners := (owners s')[h := (this', 0)]\<rparr>)))"

section \<open>Notions used in the statements\<close>


text \<open>The world before rename attempt number \<open>j\<close> of \<open>remove_or_rename\<close> (counting
  from 0), when the attempts before it were refused: the sleeps of 2, 4, ... seconds have
  passed.\<close>

fun nap :: "nat \<Rightarrow> ('a world_scheme) \<Rightarrow> ('a world_scheme)" where
  "nap 0 w = w"
| "nap (Suc j) w = sleep_for (Suc j * 2) (nap j w)"


text \<open>A path that is still held: it exists, is not a symbolic link, and its removal is
  refused now.\<close>

definition held :: "('a world_scheme) \<Rightarrow> path \<Rightarrow> bool" where
  "held w p = (fs_exists w p \<and> symlink_status w p \<noteq> symlink \<and>
               remove_denied w (clock w) (resolve w p))"


text \<open>Two states of a process that differ at most in the file system, the clock, the
  descriptors and the byte locks.\<close>

definition same_registry :: "process \<Rightarrow> process \<Rightarrow> bool" where
  "same_registry s s' =
     (owners s' = owners s \<and> locked_files s' = locked_files s \<and>
      fd_to_locked_path s' = fd_to_locked_path s \<and> cwd s' = cwd s \<and>
      platform s' = platform s \<and> use_lockfiles s' = use_lockfiles s)"

text \<open>The states a process reaches from an empty registry by calls of \<open>acquire_lock\<close>
  and by dropping handles, while the file system, the clock and the configuration change
  between the calls.\<close>

inductive reachable :: "process \<Rightarrow> bool" where
  start: "is_absolute (cwd s) \<Longrightarrow> open_fds s = [] \<Longrightarrow> os_locks s = [] \<Longrightarrow> owners s = [] \<Longrightarrow>
          locked_files s = [] \<Longrightarrow> fd_to_locked_path s = [] \<Longrightarrow> reachable s"
| acquire: "reachable s \<Longrightarrow> acquire_lock p t s = Some (r, s') \<Longrightarrow> reachable s'"
| drop: "reachable s \<Longrightarrow> reachable (drop_handle h s)"
| outside: "reachable s \<Longrightarrow> reachable (s\<lparr>nodes := ns, clock := c, use_lockfiles := b\<rparr>)"

text \<open>The invariant of the registry: the working directory and every key are absolute,
  and each live object is the one registered under its own path.\<close>

definition registry_inv :: "process \<Rightarrow> bool" where
  "registry_inv s =
     (is_absolute (cwd s) \<and>
      (\<forall>e\<in>set (locked_files s). is_absolute (fst e)) \<and>
      (\<forall>h<length (owners s). snd (owners s ! h) > 0 \<longrightarrow>
         map_of (locked_files s) (m_path (fst (owners s ! h))) = Some h))"

section \<open>Example worlds\<close>

text \<open>A prefix \<open>/p\<close> with its \<open>conda-meta\<close> directory, two files and a dangling
  link; the file \<open>f\<close> is held open elsewhere, so removing it is refused.\<close>

definition busy_world :: world where
  "busy_world =
     \<lparr>cwd = ''/p'',
      nodes = [([''p''], Dir), ([''p'', ''conda-meta''], Dir), ([''p'', ''f''], File ''x''),
               ([''p'', ''g''], File ''y''), ([''p'', ''l''], Symlink ''nowhere'')],
      clock = 0, slept = [],
      remove_denied = (\<lambda>t k. k = [''p'', ''f'']),
      rename_denied = (\<lambda>t k. False),
      locked_elsewhere = (\<lambda>t k. False),
      target_prefix = ''/p'', use_lockfiles = True\<rparr>"

text \<open>The same, with renaming \<open>f\<close> refused as well.\<close>

definition stuck_world :: world where
  "stuck_world = busy_world\<lparr>rename_denied := (\<lambda>t k. k = [''p'', ''f''])\<rparr>"


text \<open>The quarantine name of \<open>f\<close> and its first numbered variant are taken.\<close>

definition crowded_world :: world where
  "crowded_world =
     busy_world\<lparr>nodes := [([''p''], Dir), ([''p'', ''f''], File ''x''),
                          ([''p'', ''f.mamba_trash''], File ''a''),
                          ([''p'', ''f.0.mamba_trash''], File ''b'')]\<rparr>"

text \<open>The quarantine name of \<open>f\<close> and all its numbered variants from 0 to 99 are taken.\<close>

definition full_world :: world where
  "full_world =
     busy_world\<lparr>nodes :=
       [([''p''], Dir), ([''p'', ''f''], File ''x''), ([''p'', ''f.mamba_trash''], File [])]
       @ map (\<lambda>i. ([''p'', ''f.'' @ to_string i @ ''.mamba_trash''], File [])) [0..<100]\<rparr>"










definition start_process :: process where
  "start_process =
     \<lparr>cwd = ''/w'', nodes = [([''w''], Dir), ([''w'', ''env''], Dir)],
      clock = 0, slept = [],
      remove_denied = (\<lambda>t k. False), rename_denied = (\<lambda>t k. False),
      locked_elsewhere = (\<lambda>t k. False),
      target_prefix = ''/w/env'', use_lockfiles = True,
      platform = Posix, open_fds = [], os_locks = [], owners = [], locked_files = [],
      fd_to_locked_path = []\<rparr>"

definition env_owner :: LockFileOwner where
  "env_owner =
     \<lparr>m_path = ''/w/env'', m_lockfile_path = ''/w/env/env.lock'', m_timeout = 5,
      m_fd = 3, m_locked = True, m_lockfile_existed = False\<rparr>"

definition locked_process :: process where
  "locked_process =
     start_process
       \<lparr>nodes := [([''w''], Dir), ([''w'', ''env''], Dir), ([''w'', ''env'', ''env.lock''], File [])],
        open_fds := [(3, [''w'', ''env'', ''env.lock''])],
        os_locks := [(3, [''w'', ''env'', ''env.lock''])],
        owners := [(env_owner, 1)],
        locked_files := [(''/w/env'', 0)],
        fd_to_locked_path := [(3, ''/w/env'')]\<rparr>"





definition contended_start :: process where
  "contended_start =
     start_process
       \<lparr>nodes := [([''w''], Dir), ([''w'', ''env''], Dir), ([''w'', ''env'', ''env.lock''], File [])],
        locked_elsewhere := (\<lambda>t k. k = [''w'', ''env'', ''env.lock''] \<and> t < 7)\<rparr>"

definition contended_process :: process where
  "contended_process = contended_start\<lparr>open_fds := [(3, [''w'', ''env'', ''env.lock''])]\<rparr>"

definition held_process :: process where
  "held_process =
     contended_process\<lparr>locked_elsewhere := (\<lambda>t k. k = [''w'', ''env'', ''env.lock''])\<rparr>"

definition held_start :: process where
  "held_start =
     contended_start\<lparr>locked_elsewhere := (\<lambda>t k. k = [''w'', ''env'', ''env.lock''])\<rparr>"

definition windows_process :: process where
  "windows_process = held_process\<lparr>platform := Windows\<rparr>"

definition windows_contended :: process where
  "windows_contended = contended_process\<lparr>platform := Windows\<rparr>"

definition waiting_owner :: LockFileOwner where
  "waiting_owner =
     \<lparr>m_path = ''/w/env'', m_lockfile_path = ''/w/env/env.lock'', m_timeout = 0,
      m_fd = 3, m_locked = False, m_lockfile_existed = True\<rparr>"

section \<open>Auxiliary facts about the file system model\<close>

lemma map_of_filter_none: "(\<And>v. \<not> Q (k, v)) \<Longrightarrow> map_of (filter Q xs) k = None"
  by (induction xs) auto

lemma resolve_update [simp]:
  "resolve (w\<lparr>nodes := ns\<rparr>) p = resolve w p"
  "resolve (w\<lparr>clock := c\<rparr>) p = resolve w p"
  "resolve (w\<lparr>slept := sl\<rparr>) p = resolve w p"
  by (simp_all add: resolve_def)

lemma lexists_node: "lexists w p = (node_at w (resolve w p) \<noteq> None)"
  by (auto simp: lexists_def symlink_status_def type_of_def split: option.splits node.splits)

lemma fs_remove_done:
  assumes "fs_remove p w = (r, False, w')" and "lexists w p"
  shows "\<not> lexists w' p"
  using assms
  by (auto simp: fs_remove_def lexists_node Let_def node_at_def
      split: option.splits if_splits intro!: map_of_filter_none)

lemma fs_remove_all_done:
  assumes "fs_remove_all p w = (r, False, w')" and "lexists w p"
  shows "\<not> lexists w' p"
  using assms
  by (auto simp: fs_remove_all_def lexists_node Let_def node_at_def
      split: option.splits if_splits intro!: map_of_filter_none)

lemma direct_remove_done:
  assumes "direct_remove p w = (r, False, w')" and "lexists w p"
  shows "\<not> lexists w' p"
  using assms
  by (auto simp: direct_remove_def split: if_splits prod.splits
      dest: fs_remove_done fs_remove_all_done)

lemma direct_remove_error_keeps_world:
  "direct_remove p w = (r, True, w') \<Longrightarrow> w' = w"
  by (auto simp: direct_remove_def fs_remove_def fs_remove_all_def Let_def
      split: if_splits option.splits prod.splits)

lemma fs_rename_refused:
  assumes "lexists w p" and "rename_denied w (clock w) (resolve w p)"
  shows "fs_rename p t w = (True, w)"
  using assms by (auto simp: fs_rename_def lexists_node Let_def split: option.splits)

lemma sleep_for_fields [simp]:
  "clock (sleep_for n w) = clock w + n"
  "slept (sleep_for n w) = slept w @ [n]"
  "rename_denied (sleep_for n w) = rename_denied w"
  "lexists (sleep_for n w) p = lexists w p"
  "resolve (sleep_for n w) p = resolve w p"
  by (simp_all add: sleep_for_def lexists_def symlink_status_def node_at_def)

lemma follow_numeral:
  "follow (numeral n) w k =
     (case node_at w k of
        Some (Symlink t) \<Rightarrow>
          follow (pred_numeral n) w (normalize (if is_absolute t then components t
                                                else butlast k @ components t))
      | _ \<Rightarrow> Some k)"
  by (simp add: numeral_eq_Suc)

lemmas path_eval =
  resolve_def path_join_def is_absolute_def components_def normalize_def normal_step_def
  filename_def extension_def replace_extension_def base_trash_file_def
  numbered_trash_file_def trash_index_path_def digit_def

lemmas fs_eval =
  node_at_def lexists_def symlink_status_def type_of_def status_def fs_exists_def
  is_directory_def follow_numeral is_under_def has_children_def

section \<open>Properties of the safe remover\<close>

subsection \<open>The loop that picks the quarantine name\<close>

lemma trash_loop_found:
  assumes "\<forall>i. j \<le> i \<and> i < n \<longrightarrow> lexists w (numbered_trash_file p i)"
    and "\<not> lexists w (numbered_trash_file p n)" and "j \<le> n" and "n < 100"
  shows "trash_file_loop w p (numbered_trash_file p j) (Suc j) = Inr (numbered_trash_file p n)"
  using assms
proof (induction "n - j" arbitrary: j)
  case 0
  then have "j = n" by simp
  with 0 show ?case by (simp add: trash_file_loop.simps)
next
  case (Suc d)
  then have lt: "j < n" and taken: "lexists w (numbered_trash_file p j)" by auto
  have "trash_file_loop w p (numbered_trash_file p (Suc j)) (Suc (Suc j))
          = Inr (numbered_trash_file p n)"
    using Suc by (intro Suc.hyps(1)) auto
  with lt taken Suc.prems(4) show ?case
    by (subst trash_file_loop.simps) (simp add: Let_def)
qed

lemma trash_loop_exhausted:
  assumes "\<forall>i. j \<le> i \<and> i < 100 \<longrightarrow> lexists w (numbered_trash_file p i)" and "j < 100"
  shows "trash_file_loop w p (numbered_trash_file p j) (Suc j)
           = Inl (runtime_error ''Too many existing trash files. Please force clean'')"
  using assms
proof (induction "99 - j" arbitrary: j)
  case 0
  then have "j = 99" by simp
  with 0 show ?case by (subst trash_file_loop.simps) (simp add: Let_def)
next
  case (Suc d)
  then have lt: "j < 99" and taken: "lexists w (numbered_trash_file p j)" by auto
  have "trash_file_loop w p (numbered_trash_file p (Suc j)) (Suc (Suc j))
          = Inl (runtime_error ''Too many existing trash files. Please force clean'')"
    using Suc by (intro Suc.hyps(1)) auto
  with lt taken show ?case
    by (subst trash_file_loop.simps) (simp add: Let_def)
qed

lemma lexists_same_files:
  "cwd w' = cwd w \<Longrightarrow> nodes w' = nodes w \<Longrightarrow> lexists w' p = lexists w p"
  by (simp add: lexists_def symlink_status_def resolve_def node_at_def)

lemma trash_file_loop_same_files:
  assumes "cwd w' = cwd w" and "nodes w' = nodes w"
  shows "trash_file_loop w' p t f = trash_file_loop w p t f"
proof (induction "101 - f" arbitrary: t f)
  case 0
  then show ?case
    by (subst trash_file_loop.simps, subst (2) trash_file_loop.simps)
       (simp add: Let_def lexists_same_files [OF assms])
next
  case (Suc d)
  then have "trash_file_loop w' p (numbered_trash_file p f) (f + 1)
               = trash_file_loop w p (numbered_trash_file p f) (f + 1)"
    by (intro Suc.hyps(1)) simp
  then show ?case
    by (subst trash_file_loop.simps, subst (2) trash_file_loop.simps)
       (simp add: Let_def lexists_same_files [OF assms])
qed

lemma trash_file_name_sleep [simp]:
  "trash_file_name (sleep_for n w) p = trash_file_name w p"
  unfolding trash_file_name_def
  by (rule trash_file_loop_same_files) (simp_all add: sleep_for_def)

lemma rename_loop_refused:
  assumes "trash_file_name w p = Inr t" and "fs_rename p t w = (True, w)"
  shows "rename_loop p c w =
           (if 3 < Suc c then (Inl (runtime_error (''Could not delete file '' @ p)), w)
            else rename_loop p (Suc c) (sleep_for (Suc c * 2) w))"
  by (subst rename_loop.simps) (simp add: assms Let_def)

subsection \<open>Facts about the example worlds\<close>

lemma busy_resolve:
  "resolve busy_world ''/p/f'' = [''p'', ''f'']"
  "resolve busy_world ''/p/g'' = [''p'', ''g'']"
  "resolve busy_world ''/p/l'' = [''p'', ''l'']"
  "resolve busy_world ''/p/gone'' = [''p'', ''gone'']"
  by (simp_all add: busy_world_def path_eval)

lemma busy_remove_g:
  "direct_remove ''/p/g'' busy_world =
     (1, False,
      busy_world\<lparr>nodes := [([''p''], Dir), ([''p'', ''conda-meta''], Dir),
                           ([''p'', ''f''], File ''x''), ([''p'', ''l''], Symlink ''nowhere'')]\<rparr>)"
  by (simp add: direct_remove_def fs_remove_def is_directory_def status_def busy_resolve)
     (simp add: busy_world_def fs_eval)

lemma trash_names_of_f:
  "base_trash_file ''/p/f'' = ''/p/f.mamba_trash''"
  "numbered_trash_file ''/p/f'' 0 = ''/p/f.0.mamba_trash''"
  "numbered_trash_file ''/p/f'' (Suc 0) = ''/p/f.1.mamba_trash''"
  "numbered_trash_file ''/p/f'' 2 = ''/p/f.2.mamba_trash''"
  by (simp_all add: path_eval to_string.simps)

lemma crowded_lexists:
  "lexists crowded_world ''/p/f.mamba_trash''"
  "lexists crowded_world ''/p/f.0.mamba_trash''"
  "\<not> lexists crowded_world ''/p/f.1.mamba_trash''"
  by (simp_all add: lexists_node crowded_world_def busy_world_def path_eval node_at_def)

lemma stuck_facts:
  "lexists stuck_world ''/p/f''"
  "fst (snd (direct_remove ''/p/f'' stuck_world))"
  "trash_file_name stuck_world ''/p/f'' = Inr ''/p/f.mamba_trash''"
  "\<forall>n. rename_denied stuck_world n (resolve stuck_world ''/p/f'')"
     apply (simp add: lexists_node stuck_world_def busy_world_def path_eval node_at_def)
    apply (simp add: direct_remove_def fs_remove_def stuck_world_def busy_world_def
      path_eval fs_eval Let_def)
   apply (simp add: trash_file_name_def trash_file_loop.simps lexists_node path_eval
      stuck_world_def busy_world_def node_at_def)
  apply (simp add: stuck_world_def busy_world_def path_eval)
  done

subsection \<open>A path that does not exist\<close>

text \<open>
  C7. When \<open>lexists\<close> reports that the path is absent, \<open>remove_or_rename\<close> returns 0
  and the world it returns is the one it was given. \<open>lexists\<close> reports a symbolic link
  as present whatever its target (a dangling link is therefore not absent). After a call
  whose direct removal succeeded, a second call on the same path returns 0 and changes
  nothing.
\<close>

theorem remove_or_rename_missing_path:
  "(\<not> lexists w p \<longrightarrow> remove_or_rename p w = (Inr 0, w)) \<and>
   (symlink_status w p = symlink \<longrightarrow> lexists w p) \<and>
   (lexists w p \<and> direct_remove p w = (r, False, w') \<longrightarrow>
      remove_or_rename p w = (Inr r, w') \<and> remove_or_rename p w' = (Inr 0, w'))"
proof (intro conjI impI)
  assume "\<not> lexists w p"
  then show "remove_or_rename p w = (Inr 0, w)"
    by (simp add: remove_or_rename_def)
next
  assume "symlink_status w p = symlink"
  then show "lexists w p"
    by (simp add: lexists_def)
next
  assume a: "lexists w p \<and> direct_remove p w = (r, False, w')"
  then show "remove_or_rename p w = (Inr r, w')"
    by (simp add: remove_or_rename_def)
  from a have "\<not> lexists w' p"
    using direct_remove_done by blast
  then show "remove_or_rename p w' = (Inr 0, w')"
    by (simp add: remove_or_rename_def)
qed

theorem remove_or_rename_missing_path_witness:
  "\<not> lexists busy_world ''/p/gone'' \<and>
   remove_or_rename ''/p/gone'' busy_world = (Inr 0, busy_world) \<and>
   symlink_status busy_world ''/p/l'' = symlink \<and> \<not> fs_exists busy_world ''/p/l'' \<and>
   lexists busy_world ''/p/l'' \<and>
   lexists busy_world ''/p/g'' \<and>
   fst (remove_or_rename ''/p/g'' busy_world) = Inr 1 \<and>
   remove_or_rename ''/p/g'' (snd (remove_or_rename ''/p/g'' busy_world))
     = (Inr 0, snd (remove_or_rename ''/p/g'' busy_world))"
proof -
  have gone: "\<not> lexists busy_world ''/p/gone''"
    by (simp add: lexists_node busy_resolve) (simp add: busy_world_def node_at_def)
  have link: "symlink_status busy_world ''/p/l'' = symlink"
    by (simp add: symlink_status_def busy_resolve) (simp add: busy_world_def fs_eval)
  have dangling: "\<not> fs_exists busy_world ''/p/l''"
    by (simp add: fs_exists_def status_def busy_resolve)
       (simp add: busy_world_def fs_eval path_eval)
  have g: "lexists busy_world ''/p/g''"
    by (simp add: lexists_node busy_resolve) (simp add: busy_world_def node_at_def)
  note thm1 = remove_or_rename_missing_path [of busy_world "''/p/gone''"]
  note thm2 = remove_or_rename_missing_path [of busy_world "''/p/l''"]
  from gone link dangling g thm1 thm2
    remove_or_rename_missing_path [of busy_world "''/p/g''" 1
      "busy_world\<lparr>nodes := [([''p''], Dir), ([''p'', ''conda-meta''], Dir),
                           ([''p'', ''f''], File ''x''), ([''p'', ''l''], Symlink ''nowhere'')]\<rparr>"]
    busy_remove_g
  show ?thesis by simp
qed

subsection \<open>Numbering of quarantine names\<close>

text \<open>
  C4 (amended). The first candidate is the name with \<open>.mamba_trash\<close> added to the
  extension. When it exists, numbered candidates are tried in the order 0, 1, 2, ...:
  the result is the first numbered candidate that does not exist, as long as its number
  is below 100. So with the base name and the candidate numbered 0 both taken, the third
  candidate carries the number 1. When the base name and the candidates numbered 0 to 99
  all exist, the error "Too many existing trash files. Please force clean" is raised.
\<close>

theorem trash_file_name_numbering:
  "(\<not> lexists w (base_trash_file p) \<longrightarrow> trash_file_name w p = Inr (base_trash_file p)) \<and>
   (lexists w (base_trash_file p) \<and> (\<forall>i<n. lexists w (numbered_trash_file p i)) \<and>
    \<not> lexists w (numbered_trash_file p n) \<and> n < 100 \<longrightarrow>
      trash_file_name w p = Inr (numbered_trash_file p n)) \<and>
   (lexists w (base_trash_file p) \<and> (\<forall>i<100. lexists w (numbered_trash_file p i)) \<longrightarrow>
      trash_file_name w p
        = Inl (runtime_error ''Too many existing trash files. Please force clean''))"
proof (intro conjI impI)
  assume "\<not> lexists w (base_trash_file p)"
  then show "trash_file_name w p = Inr (base_trash_file p)"
    by (simp add: trash_file_name_def trash_file_loop.simps)
next
  assume a: "lexists w (base_trash_file p) \<and> (\<forall>i<n. lexists w (numbered_trash_file p i)) \<and>
    \<not> lexists w (numbered_trash_file p n) \<and> n < 100"
  then have "trash_file_loop w p (numbered_trash_file p 0) (Suc 0) = Inr (numbered_trash_file p n)"
    by (intro trash_loop_found) auto
  with a show "trash_file_name w p = Inr (numbered_trash_file p n)"
    unfolding trash_file_name_def by (subst trash_file_loop.simps) (simp add: Let_def)
next
  assume a: "lexists w (base_trash_file p) \<and> (\<forall>i<100. lexists w (numbered_trash_file p i))"
  then have "trash_file_loop w p (numbered_trash_file p 0) (Suc 0)
      = Inl (runtime_error ''Too many existing trash files. Please force clean'')"
    by (intro trash_loop_exhausted) auto
  with a show "trash_file_name w p
      = Inl (runtime_error ''Too many existing trash files. Please force clean'')"
    unfolding trash_file_name_def by (subst trash_file_loop.simps) (simp add: Let_def)
qed

lemma digit_range: "d < 10 \<Longrightarrow> digit d \<in> set ''0123456789''"
  unfolding digit_def by (rule nth_mem) simp

lemma to_string_digits: "to_string n \<noteq> [] \<and> set (to_string n) \<subseteq> set ''0123456789''"
proof (induction n rule: to_string.induct)
  case (1 n)
  show ?case
  proof (cases "n < 10")
    case True
    then have "to_string n = [digit n]" by (simp add: to_string.simps)
    with digit_range [OF True] show ?thesis by simp
  next
    case False
    then have eq: "to_string n = to_string (n div 10) @ [digit (n mod 10)]"
      by (subst to_string.simps) simp
    have "digit (n mod 10) \<in> set ''0123456789''" by (rule digit_range) simp
    with 1 [OF False] show ?thesis unfolding eq by simp
  qed
qed

lemma pieces_no_slash:
  "CHR ''/'' \<notin> set xs \<Longrightarrow> pieces cur (xs @ ys) = pieces (rev xs @ cur) ys"
  by (induction xs arbitrary: cur) auto

lemma to_string_no_slash: "CHR ''/'' \<notin> set (to_string n)"
  using to_string_digits [of n] by auto

lemma to_string_hd: "hd (to_string n @ ys) \<noteq> CHR ''.''"
proof -
  from to_string_digits [of n] obtain c cs where "to_string n = c # cs" "c \<in> set ''0123456789''"
    by (cases "to_string n") auto
  then show ?thesis by auto
qed

lemma numbered_name_f:
  "numbered_trash_file ''/p/f'' i = ''/p/f.'' @ to_string i @ ''.mamba_trash''"
proof -
  have ext: "extension ''/p/f'' = []" by (simp add: extension_def filename_def)
  have ne: "to_string i @ ''.mamba_trash'' \<noteq> []" by simp
  show ?thesis
    unfolding numbered_trash_file_def replace_extension_def ext
    using to_string_hd [of i "''.mamba_trash''"] by simp
qed

lemma numbered_location_f:
  "resolve full_world (''/p/f.'' @ to_string i @ ''.mamba_trash'')
     = [''p'', ''f.'' @ to_string i @ ''.mamba_trash'']"
proof -
  have "pieces ''.f'' (to_string i @ ''.mamba_trash'')
          = pieces (rev (to_string i) @ ''.f'') ''.mamba_trash''"
    by (rule pieces_no_slash [OF to_string_no_slash])
  then have "components (''/p/f.'' @ to_string i @ ''.mamba_trash'')
          = [''p'', ''f.'' @ to_string i @ ''.mamba_trash'']"
    by (simp add: components_def)
  then show ?thesis
    by (simp add: resolve_def path_join_def is_absolute_def normalize_def normal_step_def)
qed

lemma full_world_taken:
  "lexists full_world (base_trash_file ''/p/f'')"
  "\<forall>i<100. lexists full_world (numbered_trash_file ''/p/f'' i)"
proof -
  show "lexists full_world (base_trash_file ''/p/f'')"
    by (simp add: trash_names_of_f lexists_node)
       (simp add: full_world_def busy_world_def path_eval node_at_def)
  show "\<forall>i<100. lexists full_world (numbered_trash_file ''/p/f'' i)"
  proof (intro allI impI)
    fix i :: nat
    assume i: "i < 100"
    let ?k = "[''p'', ''f.'' @ to_string i @ ''.mamba_trash'']"
    have "?k \<in> fst ` set (nodes full_world)"
      using i by (auto simp: full_world_def image_iff intro!: bexI [of _ i])
    then have "map_of (nodes full_world) ?k \<noteq> None"
      by (simp add: map_of_eq_None_iff)
    moreover have "resolve full_world (numbered_trash_file ''/p/f'' i) = ?k"
      by (simp only: numbered_name_f numbered_location_f)
    ultimately show "lexists full_world (numbered_trash_file ''/p/f'' i)"
      unfolding lexists_node node_at_def by simp
  qed
qed

theorem trash_file_name_numbering_witness:
  "\<not> lexists busy_world (base_trash_file ''/p/f'') \<and>
   trash_file_name busy_world ''/p/f'' = Inr ''/p/f.mamba_trash'' \<and>
   lexists crowded_world (base_trash_file ''/p/f'') \<and>
   lexists crowded_world (numbered_trash_file ''/p/f'' 0) \<and>
   \<not> lexists crowded_world (numbered_trash_file ''/p/f'' (Suc 0)) \<and>
   trash_file_name crowded_world ''/p/f'' = Inr ''/p/f.1.mamba_trash'' \<and>
   lexists full_world (base_trash_file ''/p/f'') \<and>
   lexists full_world (numbered_trash_file ''/p/f'' 0) \<and>
   lexists full_world (numbered_trash_file ''/p/f'' 99) \<and>
   trash_file_name full_world ''/p/f''
     = Inl (runtime_error ''Too many existing trash files. Please force clean'')"
proof -
  have free: "\<not> lexists busy_world (base_trash_file ''/p/f'')"
    by (simp add: trash_names_of_f lexists_node busy_world_def path_eval node_at_def)
  have few: "\<not> lexists busy_world (base_trash_file ''/p/f'') \<and>
   trash_file_name busy_world ''/p/f'' = Inr ''/p/f.mamba_trash'' \<and>
   lexists crowded_world (base_trash_file ''/p/f'') \<and>
   lexists crowded_world (numbered_trash_file ''/p/f'' 0) \<and>
   \<not> lexists crowded_world (numbered_trash_file ''/p/f'' (Suc 0)) \<and>
   trash_file_name crowded_world ''/p/f'' = Inr ''/p/f.1.mamba_trash''"
    using free crowded_lexists
      trash_file_name_numbering [of busy_world "''/p/f''" 0]
      trash_file_name_numbering [of crowded_world "''/p/f''" "Suc 0"]
    by (simp add: trash_names_of_f)
  have many: "lexists full_world (base_trash_file ''/p/f'') \<and>
   lexists full_world (numbered_trash_file ''/p/f'' 0) \<and>
   lexists full_world (numbered_trash_file ''/p/f'' 99) \<and>
   trash_file_name full_world ''/p/f''
     = Inl (runtime_error ''Too many existing trash files. Please force clean'')"
    using full_world_taken trash_file_name_numbering [of full_world "''/p/f''" 0]
    by simp
  from few many show ?thesis by blast
qed

text \<open>
  The claim as stated fails: with the base name and one numbered name taken, the name
  chosen carries the number 1, not 2.
\<close>

theorem trash_file_name_third_candidate:
  "lexists crowded_world (base_trash_file ''/p/f'') \<and>
   lexists crowded_world (numbered_trash_file ''/p/f'' 0) \<and>
   trash_file_name crowded_world ''/p/f'' = Inr ''/p/f.1.mamba_trash'' \<and>
   trash_file_name crowded_world ''/p/f'' \<noteq> Inr (numbered_trash_file ''/p/f'' 2)"
proof -
  have "trash_file_name crowded_world ''/p/f'' = Inr ''/p/f.1.mamba_trash''"
    unfolding trash_file_name_def
    apply (subst trash_file_loop.simps, simp add: trash_names_of_f crowded_lexists)
    apply (subst trash_file_loop.simps, simp add: trash_names_of_f crowded_lexists)
    apply (subst trash_file_loop.simps, simp add: trash_names_of_f crowded_lexists)
    done
  then show ?thesis
    by (simp add: trash_names_of_f crowded_lexists)
qed

subsection \<open>Giving up after repeated failures\<close>

text \<open>
  C5. When the path exists, its direct removal fails, a quarantine name is found and
  the rename is refused every time, \<open>remove_or_rename\<close> attempts the rename four times
  (the first attempt and three more), sleeps 2, 4 and 6 seconds between the attempts
  (twice the number of failed attempts so far), and then throws
  "Could not delete file <path>". Nothing else in the world changes.
\<close>

theorem remove_or_rename_gives_up:
  assumes "lexists w p"
    and "fst (snd (direct_remove p w))"
    and "trash_file_name w p = Inr t"
    and "\<forall>n. rename_denied w n (resolve w p)"
  shows "remove_or_rename p w =
           (Inl (runtime_error (''Could not delete file '' @ p)),
            w\<lparr>clock := clock w + 12, slept := slept w @ [2, 4, 6]\<rparr>)"
proof -
  obtain r w' where d: "direct_remove p w = (r, True, w')"
    using assms(2) by (cases "direct_remove p w") auto
  then have w': "w' = w" by (rule direct_remove_error_keeps_world)
  let ?w1 = "sleep_for 2 w"
  let ?w2 = "sleep_for 4 ?w1"
  let ?w3 = "sleep_for 6 ?w2"
  have refused: "fs_rename p t u = (True, u)"
    if "u \<in> {w, ?w1, ?w2, ?w3}" for u
    using that assms(1,4) by (intro fs_rename_refused) auto
  have name: "trash_file_name u p = Inr t"
    if "u \<in> {w, ?w1, ?w2, ?w3}" for u
    using that assms(3) by auto
  have r0: "rename_loop p 0 w = rename_loop p (Suc 0) ?w1"
    using rename_loop_refused [OF name refused, of w 0] by simp
  have r1: "rename_loop p (Suc 0) ?w1 = rename_loop p (Suc (Suc 0)) ?w2"
    using rename_loop_refused [OF name refused, of ?w1 "Suc 0"] by simp
  have r2: "rename_loop p (Suc (Suc 0)) ?w2 = rename_loop p (Suc (Suc (Suc 0))) ?w3"
    using rename_loop_refused [OF name refused, of ?w2 "Suc (Suc 0)"] by simp
  have r3: "rename_loop p (Suc (Suc (Suc 0))) ?w3
              = (Inl (runtime_error (''Could not delete file '' @ p)), ?w3)"
    using rename_loop_refused [OF name refused, of ?w3 "Suc (Suc (Suc 0))"] by simp
  have "?w3 = w\<lparr>clock := clock w + 12, slept := slept w @ [2, 4, 6]\<rparr>"
    by (simp add: sleep_for_def)
  with r0 r1 r2 r3 d w' assms(1) show ?thesis
    by (simp add: remove_or_rename_def)
qed

theorem remove_or_rename_gives_up_witness:
  "lexists stuck_world ''/p/f'' \<and> fst (snd (direct_remove ''/p/f'' stuck_world)) \<and>
   trash_file_name stuck_world ''/p/f'' = Inr ''/p/f.mamba_trash'' \<and>
   (\<forall>n. rename_denied stuck_world n (resolve stuck_world ''/p/f'')) \<and>
   remove_or_rename ''/p/f'' stuck_world =
     (Inl (runtime_error ''Could not delete file /p/f''),
      stuck_world\<lparr>clock := 12, slept := [2, 4, 6]\<rparr>)"
  using stuck_facts remove_or_rename_gives_up [OF stuck_facts]
  by (simp add: stuck_world_def busy_world_def)

section \<open>Quarantine and reclamation\<close>

subsection \<open>Appending to the trash index\<close>






subsection \<open>Paths relative to the prefix\<close>
























subsection \<open>The line written to the index\<close>



lemma nap_fields [simp]:
  "cwd (nap j w) = cwd w" "target_prefix (nap j w) = target_prefix w"
  "nodes (nap j w) = nodes w"
  by (induction j) (simp_all add: sleep_for_def)

lemma trash_file_name_nap [simp]: "trash_file_name (nap j w) p = trash_file_name w p"
  by (induction j) simp_all

















subsection \<open>Reclaiming what the index lists\<close>

lemma map_of_filter_neq:
  "map_of (filter (\<lambda>e. fst e \<noteq> k0) xs) k = (if k \<noteq> k0 then map_of xs k else None)"
  by (induction xs) auto






lemma has_children_pruned:
  "has_children (w\<lparr>nodes := filter (\<lambda>e. K (fst e)) (nodes w)\<rparr>) k \<Longrightarrow> has_children w k"
  by (auto simp: has_children_def list_ex_iff) (metis fst_conv)





















lemma put_file_cwd [simp]: "cwd (put_file k c w) = cwd w" "resolve (put_file k c w) p = resolve w p"
  by (simp_all add: put_file_def)
















section \<open>Properties of the lock subsystem\<close>

subsection \<open>Locking disabled, and a target that is missing\<close>

text \<open>
  C9. When \<open>use_lockfiles\<close> is off, \<open>acquire_lock\<close> returns an empty shared pointer
  as the value of the \<open>expected\<close> (not as an error), and the process is unchanged: no
  descriptor opened, no lock taken, no marker file created, no registry entry added.
\<close>

theorem acquire_lock_disabled:
  "\<not> use_lockfiles s \<Longrightarrow> acquire_lock p t s = Some (Inr None, s)"
  by (simp add: acquire_lock_def)

text \<open>
  C2. The constructor of \<open>LockFileOwner\<close>, given a path that does not exist, throws
  the lock error "Could not lock non-existing path" before anything else happens: the
  process it leaves is the one it was given, so no marker file was opened or created.
  Through \<open>acquire_lock\<close> (locking enabled, no live entry for the path) the same error
  comes back as the error of the \<open>expected\<close>, again with nothing changed.
\<close>

theorem lock_target_missing:
  "(\<not> fs_exists s p \<longrightarrow>
      LockFileOwner_new p t s =
        Some (Inl (lock_error (''Could not lock non-existing path '' @ [CHR 0x27] @ p @ [CHR 0x27])), s)) \<and>
   (use_lockfiles s \<and> \<not> is_locked s (absolute s p) \<and> \<not> fs_exists s (absolute s p) \<longrightarrow>
      acquire_lock p t s =
        Some (Inl (lock_error (''Could not lock non-existing path '' @ [CHR 0x27] @ absolute s p
                                 @ [CHR 0x27])), s))"
  by (auto simp: LockFileOwner_new_def acquire_lock_def is_locked_def Let_def split: option.splits)

subsection \<open>What the lock operations leave alone\<close>

lemma same_registry_refl [simp]: "same_registry s s"
  by (simp add: same_registry_def)

lemma same_registry_trans: "same_registry s s1 \<Longrightarrow> same_registry s1 s2 \<Longrightarrow> same_registry s s2"
  by (simp add: same_registry_def)

lemma os_open_same: "os_open p s = (fd, s') \<Longrightarrow> same_registry s s'"
  by (auto simp: os_open_def same_registry_def Let_def split: option.splits node.splits if_splits)

lemma os_close_same: "os_close fd s = (r, s') \<Longrightarrow> same_registry s s'"
  by (auto simp: os_close_def same_registry_def split: option.splits)

lemma take_lock_same: "same_registry s (take_lock s fd)"
  by (auto simp: take_lock_def same_registry_def split: option.splits)

lemma try_lock_same: "try_lock fd s = (r, s') \<Longrightarrow> same_registry s s'"
  using take_lock_same by (auto simp: try_lock_def split: if_splits)

lemma os_unlock_same: "os_unlock fd s = (r, s') \<Longrightarrow> same_registry s s'"
  by (auto simp: os_unlock_def same_registry_def split: if_splits)

lemma tick_same: "same_registry s (s\<lparr>clock := c\<rparr>)"
  by (simp add: same_registry_def)

lemma sleep_same: "same_registry s (sleep_for n s)"
  by (simp add: same_registry_def sleep_for_def)

lemma fcntl_setlkw_same:
  assumes "fcntl_setlkw fd0 s0 = Some y0"
  shows "same_registry s0 (snd y0)"
proof (rule fcntl_setlkw.raw_induct [where P = "\<lambda>fd s y. same_registry s (snd y)", OF _ assms])
  fix f fd s y
  assume ih: "\<And>fd s y. f fd s = Some y \<Longrightarrow> same_registry s (snd y)"
    and body: "(if map_of (open_fds s) fd = None then Some (- 1, s)
                else if lock_free s fd then Some (0, take_lock s fd)
                else f fd (s\<lparr>clock := clock s + 1\<rparr>)) = Some y"
  show "same_registry s (snd y)"
  proof (cases "map_of (open_fds s) fd = None \<or> lock_free s fd")
    case True
    with body show ?thesis
      by (auto simp: same_registry_def take_lock_def split: if_splits option.splits)
  next
    case False
    with body have "f fd (s\<lparr>clock := clock s + 1\<rparr>) = Some y" by auto
    from ih [OF this] show ?thesis
      by (rule same_registry_trans [OF tick_same])
  qed
qed

lemma timedout_same: "timedout_set_fd_lock n fd s = (r, s') \<Longrightarrow> same_registry s s'"
proof (induction n arbitrary: s)
  case 0
  then show ?case by simp
next
  case (Suc n)
  show ?case
  proof (cases "map_of (open_fds s) fd = None \<or> lock_free s fd")
    case True
    with Suc.prems show ?thesis
      by (auto simp: same_registry_def take_lock_def split: if_splits option.splits)
  next
    case False
    with Suc.prems have "timedout_set_fd_lock n fd (s\<lparr>clock := Suc (clock s)\<rparr>) = (r, s')" by auto
    from Suc.IH [OF this] show ?thesis
      by (rule same_registry_trans [OF tick_same])
  qed
qed

lemma locking_loop_same: "locking_loop n fd ret s = (r, s') \<Longrightarrow> same_registry s s'"
proof (induction n arbitrary: s ret)
  case 0
  then show ?case by simp
next
  case (Suc n)
  obtain r1 s1 where t: "try_lock fd s = (r1, s1)" by (cases "try_lock fd s")
  note a = try_lock_same [OF t]
  show ?case
  proof (cases "r1 = 0")
    case True
    with Suc.prems t a show ?thesis by simp
  next
    case False
    with Suc.prems t have "locking_loop n fd r1 (sleep_for 1 s1) = (r, s')" by simp
    from Suc.IH [OF this] show ?thesis
      using a sleep_same same_registry_trans by blast
  qed
qed

lemma set_fd_lock_same: "set_fd_lock b this s = Some (r, s') \<Longrightarrow> same_registry s s'"
  by (auto simp: set_fd_lock_def Let_def split: platform.splits if_splits prod.splits option.splits
      dest: locking_loop_same try_lock_same timedout_same fcntl_setlkw_same)

lemma lock_same: "lock b this s = Some (r, s') \<Longrightarrow> same_registry s s'"
  by (auto simp: lock_def split: option.splits prod.splits if_splits dest: set_fd_lock_same)

lemma fs_remove_same: "fs_remove p s = (r, ec, s') \<Longrightarrow> same_registry s s'"
  by (auto simp: fs_remove_def same_registry_def Let_def split: option.splits if_splits)

lemma close_fd_same: "close_fd this s = (r, this', s') \<Longrightarrow> same_registry s s' \<and> m_path this' = m_path this"
  by (auto simp: close_fd_def split: if_splits prod.splits dest: os_close_same)

lemma remove_lockfile_same:
  "remove_lockfile this s = (this', s') \<Longrightarrow> same_registry s s' \<and> m_path this' = m_path this"
  by (auto simp: remove_lockfile_def split: if_splits prod.splits
      dest: close_fd_same fs_remove_same same_registry_trans)

lemma unlock_same:
  "unlock this s = (r, this', s') \<Longrightarrow> same_registry s s' \<and> m_path this' = m_path this"
  by (auto simp: unlock_def split: if_splits prod.splits
      dest: os_unlock_same remove_lockfile_same same_registry_trans)

lemma lock_non_blocking_same: "lock_non_blocking this s = Some (r, s') \<Longrightarrow> same_registry s s'"
  by (auto simp: lock_non_blocking_def split: if_splits dest: lock_same)

lemma LockFileOwner_new_same:
  assumes "LockFileOwner_new p t s = Some (r, s')"
  shows "same_registry s s'" and "r = Inr this \<Longrightarrow> m_path this = p"
  using assms
  by (auto simp: LockFileOwner_new_def Let_def lock_blocking_def
      split: if_splits prod.splits option.splits
      dest!: os_open_same unlock_same lock_non_blocking_same lock_same
      intro: same_registry_trans)

subsection \<open>The invariant of the registry\<close>

lemma absolute_is_absolute: "is_absolute (cwd s) \<Longrightarrow> is_absolute (absolute s p)"
  by (auto simp: absolute_def path_join_def is_absolute_def split: list.splits)

lemma map_of_insert_or_assign:
  "map_of (insert_or_assign k v m) k' = (if k' = k then Some v else map_of m k')"
  by (simp add: insert_or_assign_def map_of_filter_neq)

lemma set_insert_or_assign:
  "e \<in> set (insert_or_assign k v m) \<Longrightarrow> e = (k, v) \<or> e \<in> set m"
  by (auto simp: insert_or_assign_def)

lemma registry_inv_same:
  assumes "registry_inv s" and "same_registry s s'"
  shows "registry_inv s'"
  using assms by (simp add: registry_inv_def same_registry_def)

lemma acquire_lock_inv:
  assumes inv: "registry_inv s" and acq: "acquire_lock p t s = Some (r, s')"
  shows "registry_inv s'"
proof (cases "use_lockfiles s")
  case False
  with acq inv show ?thesis by (simp add: acquire_lock_def)
next
  case True
  let ?abs = "absolute s p"
  show ?thesis
  proof (cases "\<exists>h. map_of (locked_files s) ?abs = Some h \<and> \<not> expired s h")
    case live: True
    then obtain h where h: "map_of (locked_files s) ?abs = Some h" "\<not> expired s h" by blast
    with acq True have s': "s' = s\<lparr>owners := (owners s)[h := (fst (owners s ! h), Suc (snd (owners s ! h)))]\<rparr>"
      by (simp add: acquire_lock_def Let_def)
    show ?thesis
      using inv h(2) unfolding s' registry_inv_def expired_def
      by (auto simp: nth_list_update)
  next
    case dead: False
    then have look: "(case map_of (locked_files s) ?abs of
                        Some h \<Rightarrow> if expired s h then None else Some h | None \<Rightarrow> None) = None"
      by (auto split: option.splits)
    from acq True look obtain r1 s1 where new: "LockFileOwner_new ?abs t s = Some (r1, s1)"
      by (auto simp: acquire_lock_def Let_def split: option.splits)
    note same = LockFileOwner_new_same(1) [OF new]
    have inv1: "registry_inv s1" by (rule registry_inv_same [OF inv same])
    show ?thesis
    proof (cases r1)
      case (Inl e)
      with acq True look new have "s' = s1" by (simp add: acquire_lock_def Let_def)
      with inv1 show ?thesis by simp
    next
      case (Inr this)
      then have mp: "m_path this = ?abs" using LockFileOwner_new_same(2) [OF new] by simp
      let ?n = "length (owners s1)"
      from acq True look new Inr have s': "s' =
        s1\<lparr>owners := owners s1 @ [(this, 1)],
           locked_files := insert_or_assign ?abs ?n (locked_files s1),
           fd_to_locked_path := insert_or_assign (m_fd this) ?abs (fd_to_locked_path s1)\<rparr>"
        by (simp add: acquire_lock_def Let_def)
      have abs: "is_absolute ?abs"
        using inv by (simp add: registry_inv_def absolute_is_absolute)
      have old: "m_path (fst (owners s1 ! h)) \<noteq> ?abs"
        if "h < ?n" "snd (owners s1 ! h) > 0" for h
      proof
        assume "m_path (fst (owners s1 ! h)) = ?abs"
        with inv1 that have "map_of (locked_files s1) ?abs = Some h"
          by (auto simp: registry_inv_def)
        with same that dead show False
          by (auto simp: same_registry_def expired_def)
      qed
      show ?thesis
        unfolding s' registry_inv_def
      proof (intro conjI ballI allI impI)
        show "is_absolute (cwd (s1\<lparr>owners := owners s1 @ [(this, 1)],
           locked_files := insert_or_assign ?abs ?n (locked_files s1),
           fd_to_locked_path := insert_or_assign (m_fd this) ?abs (fd_to_locked_path s1)\<rparr>))"
          using inv1 by (simp add: registry_inv_def)
      next
        fix e
        assume "e \<in> set (locked_files (s1\<lparr>owners := owners s1 @ [(this, 1)],
           locked_files := insert_or_assign ?abs ?n (locked_files s1),
           fd_to_locked_path := insert_or_assign (m_fd this) ?abs (fd_to_locked_path s1)\<rparr>))"
        then have "e = (?abs, ?n) \<or> e \<in> set (locked_files s1)"
          using set_insert_or_assign by fastforce
        with abs inv1 show "is_absolute (fst e)"
          by (auto simp: registry_inv_def)
      next
        fix h
        let ?s' = "s1\<lparr>owners := owners s1 @ [(this, 1)],
           locked_files := insert_or_assign ?abs ?n (locked_files s1),
           fd_to_locked_path := insert_or_assign (m_fd this) ?abs (fd_to_locked_path s1)\<rparr>"
        assume lt: "h < length (owners ?s')" and live: "0 < snd (owners ?s' ! h)"
        show "map_of (locked_files ?s') (m_path (fst (owners ?s' ! h))) = Some h"
        proof (cases "h < ?n")
          case True
          with live have l1: "snd (owners s1 ! h) > 0" by (simp add: nth_append)
          from old [OF True l1] inv1 True l1 show ?thesis
            by (simp add: nth_append map_of_insert_or_assign registry_inv_def)
        next
          case False
          with lt have "h = ?n" by simp
          then show ?thesis by (simp add: mp map_of_insert_or_assign)
        qed
      qed
    qed
  qed
qed

lemma drop_handle_inv:
  assumes inv: "registry_inv s"
  shows "registry_inv (drop_handle h s)"
proof (cases "expired s h")
  case True
  with inv show ?thesis by (simp add: drop_handle_def)
next
  case False
  obtain this n where o: "owners s ! h = (this, n)" by (cases "owners s ! h")
  show ?thesis
  proof (cases "n > 1")
    case True
    with False o have "drop_handle h s = s\<lparr>owners := (owners s)[h := (this, n - 1)]\<rparr>"
      by (simp add: drop_handle_def)
    moreover from inv have "h < length (owners s) \<longrightarrow> 0 < snd (owners s ! h) \<longrightarrow>
        map_of (locked_files s) (m_path (fst (owners s ! h))) = Some h"
      unfolding registry_inv_def by blast
    with o True False have "map_of (locked_files s) (m_path this) = Some h"
      by (simp add: expired_def)
    ultimately show ?thesis
      using inv o True False
      by (auto simp: registry_inv_def nth_list_update expired_def)
  next
    case last: False
    obtain r this' s1 where u: "unlock this s = (r, this', s1)" by (cases "unlock this s") auto
    note us = unlock_same [OF u]
    from False o last u have d: "drop_handle h s = s1\<lparr>owners := (owners s1)[h := (this', 0)]\<rparr>"
      by (simp add: drop_handle_def)
    have "registry_inv s1" using inv us registry_inv_same by blast
    moreover have "h < length (owners s1)"
      using us False by (simp add: same_registry_def expired_def)
    ultimately show ?thesis
      unfolding d by (auto simp: registry_inv_def nth_list_update)
  qed
qed

lemma reachable_inv: "reachable s \<Longrightarrow> registry_inv s"
proof (induction rule: reachable.induct)
  case (start s)
  then show ?case by (simp add: registry_inv_def)
next
  case (acquire s p t r s')
  then show ?case using acquire_lock_inv by blast
next
  case (drop s h)
  then show ?case by (simp add: drop_handle_inv)
next
  case (outside s ns c b)
  then show ?case by (simp add: registry_inv_def)
qed

text \<open>
  C10. Every key of \<open>locked_files\<close> is an absolute path, in every state the registry
  can reach, while \<open>is_locked\<close> searches for the path as given. So for a relative
  path it answers false, also when the absolute form of that path has a live entry.
\<close>

theorem is_locked_relative_path:
  assumes "reachable s" and "\<not> is_absolute p"
  shows "\<not> is_locked s p \<and> (\<forall>e\<in>set (locked_files s). is_absolute (fst e))"
proof -
  from reachable_inv [OF assms(1)] have keys: "\<forall>e\<in>set (locked_files s). is_absolute (fst e)"
    by (simp add: registry_inv_def)
  have "map_of (locked_files s) p = None"
  proof (cases "map_of (locked_files s) p")
    case (Some h)
    then have "(p, h) \<in> set (locked_files s)" by (rule map_of_SomeD)
    with keys assms(2) show ?thesis by auto
  qed simp
  with keys show ?thesis by (simp add: is_locked_def)
qed

lemmas lock_eval =
  acquire_lock_def LockFileOwner_new_def lockfile_path_for_def os_open_def lock_non_blocking_def is_locked_def
  lock_def lock_blocking_def set_fd_lock_def try_lock_def lock_free_def take_lock_def
  fresh_fd_def absolute_def expired_def insert_or_assign_def Let_def

lemma acquire_env:
  "acquire_lock ''env'' 5 start_process = Some (Inr (Some 0), locked_process)"
  by (simp add: lock_eval start_process_def locked_process_def env_owner_def path_eval fs_eval)

lemma reachable_locked: "reachable locked_process"
proof -
  have "reachable start_process"
    by (rule reachable.start) (simp_all add: start_process_def is_absolute_def)
  then show ?thesis
    using acquire_env by (rule reachable.acquire)
qed

theorem is_locked_relative_path_witness:
  "reachable locked_process \<and> \<not> is_absolute ''env'' \<and>
   absolute locked_process ''env'' = ''/w/env'' \<and>
   is_locked locked_process ''/w/env'' \<and> \<not> is_locked locked_process ''env''"
  using reachable_locked is_locked_relative_path [of locked_process "''env''"]
  by (simp add: is_absolute_def)
     (simp add: is_locked_def absolute_def path_join_def is_absolute_def expired_def
        locked_process_def start_process_def)

theorem acquire_lock_disabled_witness:
  "\<not> use_lockfiles (start_process\<lparr>use_lockfiles := False\<rparr>) \<and>
   acquire_lock ''env'' 5 (start_process\<lparr>use_lockfiles := False\<rparr>)
     = Some (Inr None, start_process\<lparr>use_lockfiles := False\<rparr>)"
  using acquire_lock_disabled [of "start_process\<lparr>use_lockfiles := False\<rparr>" "''env''" 5]
  by simp

theorem lock_target_missing_witness:
  "\<not> fs_exists start_process ''/w/gone'' \<and>
   use_lockfiles start_process \<and> \<not> is_locked start_process (absolute start_process ''gone'') \<and>
   \<not> fs_exists start_process (absolute start_process ''gone'') \<and>
   LockFileOwner_new ''/w/gone'' 5 start_process =
     Some (Inl (lock_error (''Could not lock non-existing path '' @ [CHR 0x27] @ ''/w/gone''
                              @ [CHR 0x27])), start_process) \<and>
   acquire_lock ''gone'' 5 start_process =
     Some (Inl (lock_error (''Could not lock non-existing path '' @ [CHR 0x27] @ ''/w/gone''
                              @ [CHR 0x27])), start_process)"
proof -
  have a: "absolute start_process ''gone'' = ''/w/gone''"
    by (simp add: absolute_def path_join_def is_absolute_def start_process_def)
  have b: "\<not> fs_exists start_process ''/w/gone''"
    by (simp add: start_process_def path_eval fs_eval)
  have c: "use_lockfiles start_process" "\<not> is_locked start_process ''/w/gone''"
    by (simp_all add: start_process_def is_locked_def)
  from b c lock_target_missing [of start_process "''/w/gone''" 5]
    lock_target_missing [of start_process "''gone''" 5, unfolded a]
  show ?thesis unfolding a by blast
qed

subsection \<open>Waiting for a lock\<close>

lemma lock_free_held:
  "map_of (open_fds s) fd = Some k \<Longrightarrow> locked_elsewhere s (clock s) k \<Longrightarrow> \<not> lock_free s fd"
  by (simp add: lock_free_def)

lemma lock_free_posix:
  "map_of (open_fds s) fd = Some k \<Longrightarrow> platform s = Posix \<Longrightarrow>
   lock_free s fd = (\<not> locked_elsewhere s (clock s) k)"
  by (simp add: lock_free_def)

lemma fcntl_setlkw_returns:
  assumes "fcntl_setlkw fd0 s0 = Some y0"
  shows "\<not> (\<exists>k. map_of (open_fds s0) fd0 = Some k \<and> (\<forall>t\<ge>clock s0. locked_elsewhere s0 t k))"
proof (rule fcntl_setlkw.raw_induct
    [where P = "\<lambda>fd s y. \<not> (\<exists>k. map_of (open_fds s) fd = Some k \<and>
                                   (\<forall>t\<ge>clock s. locked_elsewhere s t k))", OF _ assms])
  fix f fd s y
  assume ih: "\<And>fd s y. f fd s = Some y \<Longrightarrow>
      \<not> (\<exists>k. map_of (open_fds s) fd = Some k \<and> (\<forall>t\<ge>clock s. locked_elsewhere s t k))"
    and body: "(if map_of (open_fds s) fd = None then Some (- 1, s)
                else if lock_free s fd then Some (0, take_lock s fd)
                else f fd (s\<lparr>clock := clock s + 1\<rparr>)) = Some y"
  show "\<not> (\<exists>k. map_of (open_fds s) fd = Some k \<and> (\<forall>t\<ge>clock s. locked_elsewhere s t k))"
  proof
    assume "\<exists>k. map_of (open_fds s) fd = Some k \<and> (\<forall>t\<ge>clock s. locked_elsewhere s t k)"
    then obtain k where k: "map_of (open_fds s) fd = Some k"
      and held: "\<forall>t\<ge>clock s. locked_elsewhere s t k" by blast
    then have "\<not> lock_free s fd" by (simp add: lock_free_held)
    with k body have "f fd (s\<lparr>clock := clock s + 1\<rparr>) = Some y" by simp
    from ih [OF this] k held show False by auto
  qed
qed

lemma fcntl_setlkw_never:
  assumes "map_of (open_fds s) fd = Some k" and "\<forall>t\<ge>clock s. locked_elsewhere s t k"
  shows "fcntl_setlkw fd s = None"
proof (cases "fcntl_setlkw fd s")
  case (Some y)
  from fcntl_setlkw_returns [OF this] assms show ?thesis by blast
qed simp

lemma fcntl_setlkw_waits:
  assumes "map_of (open_fds s) fd = Some k" and "platform s = Posix"
    and "\<forall>t. clock s \<le> t \<and> t < clock s + d \<longrightarrow> locked_elsewhere s t k"
    and "\<not> locked_elsewhere s (clock s + d) k"
  shows "fcntl_setlkw fd s = Some (0, take_lock (s\<lparr>clock := clock s + d\<rparr>) fd)"
  using assms
proof (induction d arbitrary: s)
  case 0
  then show ?case
    by (subst fcntl_setlkw.simps) (simp add: lock_free_posix)
next
  case (Suc d)
  let ?s1 = "s\<lparr>clock := clock s + 1\<rparr>"
  have "fcntl_setlkw fd ?s1 = Some (0, take_lock (?s1\<lparr>clock := clock ?s1 + d\<rparr>) fd)"
    using Suc.prems by (intro Suc.IH) auto
  moreover have "\<not> lock_free s fd"
    using Suc.prems by (simp add: lock_free_posix)
  ultimately show ?case
    using Suc.prems(1) by (subst fcntl_setlkw.simps) simp
qed

lemma timedout_expires:
  assumes "map_of (open_fds s) fd = Some k"
    and "\<forall>t. clock s \<le> t \<and> t < clock s + n \<longrightarrow> locked_elsewhere s t k"
  shows "timedout_set_fd_lock n fd s = (- 1, s\<lparr>clock := clock s + n\<rparr>)"
  using assms
proof (induction n arbitrary: s)
  case 0
  then show ?case by simp
next
  case (Suc n)
  let ?s1 = "s\<lparr>clock := clock s + 1\<rparr>"
  have "timedout_set_fd_lock n fd ?s1 = (- 1, ?s1\<lparr>clock := clock ?s1 + n\<rparr>)"
    using Suc.prems by (intro Suc.IH) auto
  moreover have "\<not> lock_free s fd"
    using Suc.prems by (simp add: lock_free_held)
  ultimately show ?case
    using Suc.prems(1) by simp
qed

lemma locking_loop_expires:
  assumes "map_of (open_fds s) fd = Some k"
    and "\<forall>t. clock s \<le> t \<and> t < clock s + n \<longrightarrow> locked_elsewhere s t k"
  shows "locking_loop n fd ret s =
           ((if n = 0 then ret else - 1),
            s\<lparr>clock := clock s + n, slept := slept s @ replicate n 1\<rparr>)"
  using assms
proof (induction n arbitrary: s ret)
  case 0
  then show ?case by simp
next
  case (Suc n)
  let ?s1 = "sleep_for 1 s"
  have nf: "\<not> lock_free s fd"
    using Suc.prems by (simp add: lock_free_held)
  have "locking_loop n fd (- 1) ?s1 =
          ((if n = 0 then - 1 else - 1),
           ?s1\<lparr>clock := clock ?s1 + n, slept := slept ?s1 @ replicate n 1\<rparr>)"
    using Suc.prems by (intro Suc.IH) (auto simp: sleep_for_def)
  with nf show ?case
    by (simp add: try_lock_def sleep_for_def replicate_app_Cons_same)
qed

subsection \<open>Sharing one handle per path\<close>


lemma os_unlock_fds: "os_unlock fd s = (r, s') \<Longrightarrow> open_fds s' = open_fds s"
  by (auto simp: os_unlock_def split: if_splits)

















subsection \<open>The blocking attempt\<close>

lemma timedout_succeeds:
  assumes "map_of (open_fds s) fd = Some k" and "platform s = Posix"
    and "\<forall>t. clock s \<le> t \<and> t < clock s + d \<longrightarrow> locked_elsewhere s t k"
    and "\<not> locked_elsewhere s (clock s + d) k" and "d < n"
  shows "timedout_set_fd_lock n fd s = (0, take_lock (s\<lparr>clock := clock s + d\<rparr>) fd)"
  using assms
proof (induction d arbitrary: s n)
  case 0
  then obtain m where "n = Suc m" by (cases n) auto
  with 0 show ?case by (simp add: lock_free_posix)
next
  case (Suc d)
  then obtain m where n: "n = Suc m" by (cases n) auto
  let ?s1 = "s\<lparr>clock := clock s + 1\<rparr>"
  have "timedout_set_fd_lock m fd ?s1 = (0, take_lock (?s1\<lparr>clock := clock ?s1 + d\<rparr>) fd)"
    using Suc.prems n by (intro Suc.IH) auto
  moreover have "\<not> lock_free s fd"
    using Suc.prems by (simp add: lock_free_posix)
  ultimately show ?case
    using Suc.prems(1) n by simp
qed

lemma locking_loop_succeeds:
  assumes "map_of (open_fds s) fd = Some k" and "k \<notin> snd ` set (os_locks s)"
    and "\<forall>t. clock s \<le> t \<and> t < clock s + d \<longrightarrow> locked_elsewhere s t k"
    and "\<not> locked_elsewhere s (clock s + d) k" and "d < n"
  shows "locking_loop n fd ret s =
           (0, take_lock (s\<lparr>clock := clock s + d, slept := slept s @ replicate d 1\<rparr>) fd)"
  using assms
proof (induction d arbitrary: s n ret)
  case 0
  then obtain m where "n = Suc m" by (cases n) auto
  with 0 show ?case by (simp add: try_lock_def lock_free_def)
next
  case (Suc d)
  then obtain m where n: "n = Suc m" by (cases n) auto
  let ?s1 = "sleep_for 1 s"
  have nf: "\<not> lock_free s fd"
    using Suc.prems by (simp add: lock_free_held)
  have "locking_loop m fd (- 1) ?s1 =
          (0, take_lock (?s1\<lparr>clock := clock ?s1 + d, slept := slept ?s1 @ replicate d 1\<rparr>) fd)"
    using Suc.prems n by (intro Suc.IH) (auto simp: sleep_for_def)
  with nf n show ?case
    by (simp add: try_lock_def sleep_for_def replicate_app_Cons_same)
qed

lemma lock_blocking_posix_untimed:
  assumes "platform s = Posix" and "m_timeout this = 0"
  shows "lock_blocking this s =
           (case fcntl_setlkw (m_fd this) s of None \<Rightarrow> None
            | Some (ret, s') \<Rightarrow> Some (ret = 0, s'))"
  using assms
  by (simp add: lock_blocking_def lock_def set_fd_lock_def split: option.splits prod.splits)

lemma lock_blocking_posix_timed:
  assumes "platform s = Posix" and "m_timeout this \<noteq> 0"
  shows "lock_blocking this s =
           (case timedout_set_fd_lock (nat (m_timeout this)) (m_fd this) s of
              (ret, s') \<Rightarrow> Some (ret = 0, s'))"
  using assms
  by (simp add: lock_blocking_def lock_def set_fd_lock_def split: option.splits prod.splits)

lemma lock_blocking_windows_timed:
  assumes "platform s = Windows" and "0 < m_timeout this"
  shows "lock_blocking this s =
           (case locking_loop (nat (m_timeout this)) (m_fd this) 0 s of
              (ret, s') \<Rightarrow> Some (ret = 0, s'))"
  using assms
  by (simp add: lock_blocking_def lock_def set_fd_lock_def Let_def
      split: option.splits prod.splits)

lemma lock_blocking_windows_default:
  assumes "platform s = Windows" and "m_timeout this \<le> 0"
  shows "lock_blocking this s =
           (case locking_loop 30 (m_fd this) 0 s of (ret, s') \<Rightarrow> Some (ret = 0, s'))"
  using assms
  by (simp add: lock_blocking_def lock_def set_fd_lock_def default_timeout_def Let_def
      split: option.splits prod.splits)

lemma constructor_falls_back:
  assumes "fs_exists s0 p" and "os_open (lockfile_path_for s0 p) s0 = (fd, s1)" and "0 < fd"
    and "lock_non_blocking
           \<lparr>m_path = p, m_lockfile_path = lockfile_path_for s0 p, m_timeout = tmo, m_fd = fd,
            m_locked = False, m_lockfile_existed = fs_exists s0 (lockfile_path_for s0 p)\<rparr> s1
         = Some (False, s2)"
  shows "LockFileOwner_new p tmo s0 =
     (case lock_blocking
             \<lparr>m_path = p, m_lockfile_path = lockfile_path_for s0 p, m_timeout = tmo, m_fd = fd,
              m_locked = False, m_lockfile_existed = fs_exists s0 (lockfile_path_for s0 p)\<rparr> s2 of
        None \<Rightarrow> None
      | Some (locked, s3) \<Rightarrow>
          if locked
          then Some (Inr \<lparr>m_path = p, m_lockfile_path = lockfile_path_for s0 p, m_timeout = tmo,
                          m_fd = fd, m_locked = True,
                          m_lockfile_existed = fs_exists s0 (lockfile_path_for s0 p)\<rparr>, s3)
          else Some (Inl (lock_error (cannot_set_message p)),
                     snd (snd (unlock
                       \<lparr>m_path = p, m_lockfile_path = lockfile_path_for s0 p, m_timeout = tmo,
                        m_fd = fd, m_locked = False,
                        m_lockfile_existed = fs_exists s0 (lockfile_path_for s0 p)\<rparr> s3))))"
  using assms
  by (simp add: LockFileOwner_new_def Let_def split: option.splits prod.splits)

text \<open>
  C6 (amended). In the constructor, when the non-blocking attempt fails the blocking
  attempt is made and decides the outcome: the object when it succeeds, the lock error
  "LockFile can't be set at ..." (after \<open>unlock\<close>) when it fails, and no return when it
  never returns.

  With a positive timeout the blocking attempt is bounded by it on both builds: it fails
  after that many seconds when the lock stays held by another process, and succeeds as
  soon as the lock is free before that (the Windows build polls once a second, sleeping a
  second after each failed attempt).

  With a timeout of zero the POSIX build waits without bound: the attempt never returns
  while the lock stays held, and it succeeds whenever the lock becomes free, however late.
  The Windows build replaces a timeout that is not positive by the default of 30 seconds:
  the attempt fails after 30 seconds when the lock stays held, and succeeds when the lock
  is free before that.
\<close>

theorem blocking_attempt_bounds:
  "(fs_exists s0 p \<and> os_open (lockfile_path_for s0 p) s0 = (fd, s1) \<and> 0 < fd \<and>
    lock_non_blocking
      \<lparr>m_path = p, m_lockfile_path = lockfile_path_for s0 p, m_timeout = tmo, m_fd = fd,
       m_locked = False, m_lockfile_existed = fs_exists s0 (lockfile_path_for s0 p)\<rparr> s1
      = Some (False, s2) \<longrightarrow>
      LockFileOwner_new p tmo s0 =
        (case lock_blocking
                \<lparr>m_path = p, m_lockfile_path = lockfile_path_for s0 p, m_timeout = tmo,
                 m_fd = fd, m_locked = False,
                 m_lockfile_existed = fs_exists s0 (lockfile_path_for s0 p)\<rparr> s2 of
           None \<Rightarrow> None
         | Some (locked, s3) \<Rightarrow>
             if locked
             then Some (Inr \<lparr>m_path = p, m_lockfile_path = lockfile_path_for s0 p,
                             m_timeout = tmo, m_fd = fd, m_locked = True,
                             m_lockfile_existed = fs_exists s0 (lockfile_path_for s0 p)\<rparr>, s3)
             else Some (Inl (lock_error (cannot_set_message p)),
                        snd (snd (unlock
                          \<lparr>m_path = p, m_lockfile_path = lockfile_path_for s0 p,
                           m_timeout = tmo, m_fd = fd, m_locked = False,
                           m_lockfile_existed = fs_exists s0 (lockfile_path_for s0 p)\<rparr> s3))))) \<and>
   (map_of (open_fds s) (m_fd this) = Some k \<and> platform s = Posix \<and> 0 < m_timeout this \<and>
    (\<forall>t. clock s \<le> t \<and> t < clock s + nat (m_timeout this) \<longrightarrow> locked_elsewhere s t k) \<longrightarrow>
      lock_blocking this s = Some (False, s\<lparr>clock := clock s + nat (m_timeout this)\<rparr>)) \<and>
   (map_of (open_fds s) (m_fd this) = Some k \<and> platform s = Posix \<and> 0 < m_timeout this \<and>
    (\<forall>t. clock s \<le> t \<and> t < clock s + d \<longrightarrow> locked_elsewhere s t k) \<and>
    \<not> locked_elsewhere s (clock s + d) k \<and> d < nat (m_timeout this) \<longrightarrow>
      lock_blocking this s = Some (True, take_lock (s\<lparr>clock := clock s + d\<rparr>) (m_fd this))) \<and>
   (map_of (open_fds s) (m_fd this) = Some k \<and> platform s = Windows \<and> 0 < m_timeout this \<and>
    (\<forall>t. clock s \<le> t \<and> t < clock s + nat (m_timeout this) \<longrightarrow> locked_elsewhere s t k) \<longrightarrow>
      lock_blocking this s =
        Some (False, s\<lparr>clock := clock s + nat (m_timeout this),
                        slept := slept s @ replicate (nat (m_timeout this)) 1\<rparr>)) \<and>
   (map_of (open_fds s) (m_fd this) = Some k \<and> platform s = Windows \<and> 0 < m_timeout this \<and>
    k \<notin> snd ` set (os_locks s) \<and>
    (\<forall>t. clock s \<le> t \<and> t < clock s + d \<longrightarrow> locked_elsewhere s t k) \<and>
    \<not> locked_elsewhere s (clock s + d) k \<and> d < nat (m_timeout this) \<longrightarrow>
      lock_blocking this s =
        Some (True, take_lock (s\<lparr>clock := clock s + d, slept := slept s @ replicate d 1\<rparr>)
                      (m_fd this))) \<and>
   (map_of (open_fds s) (m_fd this) = Some k \<and> platform s = Posix \<and> m_timeout this = 0 \<and>
    (\<forall>t\<ge>clock s. locked_elsewhere s t k) \<longrightarrow>
      lock_blocking this s = None) \<and>
   (map_of (open_fds s) (m_fd this) = Some k \<and> platform s = Posix \<and> m_timeout this = 0 \<and>
    (\<forall>t. clock s \<le> t \<and> t < clock s + d \<longrightarrow> locked_elsewhere s t k) \<and>
    \<not> locked_elsewhere s (clock s + d) k \<longrightarrow>
      lock_blocking this s = Some (True, take_lock (s\<lparr>clock := clock s + d\<rparr>) (m_fd this))) \<and>
   (map_of (open_fds s) (m_fd this) = Some k \<and> platform s = Windows \<and> m_timeout this \<le> 0 \<and>
    (\<forall>t. clock s \<le> t \<and> t < clock s + 30 \<longrightarrow> locked_elsewhere s t k) \<longrightarrow>
      lock_blocking this s =
        Some (False, s\<lparr>clock := clock s + 30, slept := slept s @ replicate 30 1\<rparr>)) \<and>
   (map_of (open_fds s) (m_fd this) = Some k \<and> platform s = Windows \<and> m_timeout this \<le> 0 \<and>
    k \<notin> snd ` set (os_locks s) \<and>
    (\<forall>t. clock s \<le> t \<and> t < clock s + d \<longrightarrow> locked_elsewhere s t k) \<and>
    \<not> locked_elsewhere s (clock s + d) k \<and> d < 30 \<longrightarrow>
      lock_blocking this s =
        Some (True, take_lock (s\<lparr>clock := clock s + d, slept := slept s @ replicate d 1\<rparr>)
                      (m_fd this)))"
proof (intro conjI impI)
  assume a: "fs_exists s0 p \<and> os_open (lockfile_path_for s0 p) s0 = (fd, s1) \<and> 0 < fd \<and>
    lock_non_blocking
      \<lparr>m_path = p, m_lockfile_path = lockfile_path_for s0 p, m_timeout = tmo, m_fd = fd,
       m_locked = False, m_lockfile_existed = fs_exists s0 (lockfile_path_for s0 p)\<rparr> s1
      = Some (False, s2)"
  then show "LockFileOwner_new p tmo s0 =
     (case lock_blocking
             \<lparr>m_path = p, m_lockfile_path = lockfile_path_for s0 p, m_timeout = tmo, m_fd = fd,
              m_locked = False, m_lockfile_existed = fs_exists s0 (lockfile_path_for s0 p)\<rparr> s2 of
        None \<Rightarrow> None
      | Some (locked, s3) \<Rightarrow>
          if locked
          then Some (Inr \<lparr>m_path = p, m_lockfile_path = lockfile_path_for s0 p, m_timeout = tmo,
                          m_fd = fd, m_locked = True,
                          m_lockfile_existed = fs_exists s0 (lockfile_path_for s0 p)\<rparr>, s3)
          else Some (Inl (lock_error (cannot_set_message p)),
                     snd (snd (unlock
                       \<lparr>m_path = p, m_lockfile_path = lockfile_path_for s0 p, m_timeout = tmo,
                        m_fd = fd, m_locked = False,
                        m_lockfile_existed = fs_exists s0 (lockfile_path_for s0 p)\<rparr> s3))))"
    by (elim conjE) (rule constructor_falls_back)
next
  assume a: "map_of (open_fds s) (m_fd this) = Some k \<and> platform s = Posix \<and> 0 < m_timeout this \<and>
    (\<forall>t. clock s \<le> t \<and> t < clock s + nat (m_timeout this) \<longrightarrow> locked_elsewhere s t k)"
  then have "timedout_set_fd_lock (nat (m_timeout this)) (m_fd this) s
               = (- 1, s\<lparr>clock := clock s + nat (m_timeout this)\<rparr>)"
    by (elim conjE) (rule timedout_expires)
  moreover from a have "platform s = Posix" "m_timeout this \<noteq> 0" by simp_all
  ultimately show "lock_blocking this s = Some (False, s\<lparr>clock := clock s + nat (m_timeout this)\<rparr>)"
    by (simp add: lock_blocking_posix_timed)
next
  assume a: "map_of (open_fds s) (m_fd this) = Some k \<and> platform s = Posix \<and> 0 < m_timeout this \<and>
    (\<forall>t. clock s \<le> t \<and> t < clock s + d \<longrightarrow> locked_elsewhere s t k) \<and>
    \<not> locked_elsewhere s (clock s + d) k \<and> d < nat (m_timeout this)"
  then have "timedout_set_fd_lock (nat (m_timeout this)) (m_fd this) s
               = (0, take_lock (s\<lparr>clock := clock s + d\<rparr>) (m_fd this))"
    by (elim conjE) (rule timedout_succeeds)
  moreover from a have "platform s = Posix" "m_timeout this \<noteq> 0" by simp_all
  ultimately show "lock_blocking this s
      = Some (True, take_lock (s\<lparr>clock := clock s + d\<rparr>) (m_fd this))"
    by (simp add: lock_blocking_posix_timed)
next
  assume a: "map_of (open_fds s) (m_fd this) = Some k \<and> platform s = Windows \<and> 0 < m_timeout this \<and>
    (\<forall>t. clock s \<le> t \<and> t < clock s + nat (m_timeout this) \<longrightarrow> locked_elsewhere s t k)"
  then have "locking_loop (nat (m_timeout this)) (m_fd this) 0 s =
           ((if nat (m_timeout this) = 0 then 0 else - 1),
            s\<lparr>clock := clock s + nat (m_timeout this),
              slept := slept s @ replicate (nat (m_timeout this)) 1\<rparr>)"
    by (elim conjE) (rule locking_loop_expires)
  moreover from a have "platform s = Windows" "0 < m_timeout this" by simp_all
  ultimately show "lock_blocking this s =
        Some (False, s\<lparr>clock := clock s + nat (m_timeout this),
                        slept := slept s @ replicate (nat (m_timeout this)) 1\<rparr>)"
    by (simp add: lock_blocking_windows_timed)
next
  assume a: "map_of (open_fds s) (m_fd this) = Some k \<and> platform s = Windows \<and> 0 < m_timeout this \<and>
    k \<notin> snd ` set (os_locks s) \<and>
    (\<forall>t. clock s \<le> t \<and> t < clock s + d \<longrightarrow> locked_elsewhere s t k) \<and>
    \<not> locked_elsewhere s (clock s + d) k \<and> d < nat (m_timeout this)"
  then have "locking_loop (nat (m_timeout this)) (m_fd this) 0 s =
           (0, take_lock (s\<lparr>clock := clock s + d, slept := slept s @ replicate d 1\<rparr>) (m_fd this))"
    by (elim conjE) (rule locking_loop_succeeds)
  moreover from a have "platform s = Windows" "0 < m_timeout this" by simp_all
  ultimately show "lock_blocking this s =
        Some (True, take_lock (s\<lparr>clock := clock s + d, slept := slept s @ replicate d 1\<rparr>)
                      (m_fd this))"
    by (simp add: lock_blocking_windows_timed)
next
  assume a: "map_of (open_fds s) (m_fd this) = Some k \<and> platform s = Posix \<and> m_timeout this = 0 \<and>
    (\<forall>t\<ge>clock s. locked_elsewhere s t k)"
  then have "fcntl_setlkw (m_fd this) s = None"
    by (elim conjE) (rule fcntl_setlkw_never)
  moreover from a have "platform s = Posix" "m_timeout this = 0" by simp_all
  ultimately show "lock_blocking this s = None"
    by (simp add: lock_blocking_posix_untimed)
next
  assume a: "map_of (open_fds s) (m_fd this) = Some k \<and> platform s = Posix \<and> m_timeout this = 0 \<and>
    (\<forall>t. clock s \<le> t \<and> t < clock s + d \<longrightarrow> locked_elsewhere s t k) \<and>
    \<not> locked_elsewhere s (clock s + d) k"
  then have "fcntl_setlkw (m_fd this) s = Some (0, take_lock (s\<lparr>clock := clock s + d\<rparr>) (m_fd this))"
    by (elim conjE) (rule fcntl_setlkw_waits)
  moreover from a have "platform s = Posix" "m_timeout this = 0" by simp_all
  ultimately show "lock_blocking this s
      = Some (True, take_lock (s\<lparr>clock := clock s + d\<rparr>) (m_fd this))"
    by (simp add: lock_blocking_posix_untimed)
next
  assume a: "map_of (open_fds s) (m_fd this) = Some k \<and> platform s = Windows \<and> m_timeout this \<le> 0 \<and>
    (\<forall>t. clock s \<le> t \<and> t < clock s + 30 \<longrightarrow> locked_elsewhere s t k)"
  then have "locking_loop 30 (m_fd this) 0 s =
           ((if (30::nat) = 0 then 0 else - 1),
            s\<lparr>clock := clock s + 30, slept := slept s @ replicate 30 1\<rparr>)"
    by (elim conjE) (rule locking_loop_expires)
  moreover from a have "platform s = Windows" "m_timeout this \<le> 0" by simp_all
  ultimately show "lock_blocking this s =
        Some (False, s\<lparr>clock := clock s + 30, slept := slept s @ replicate 30 1\<rparr>)"
    by (simp add: lock_blocking_windows_default)
next
  assume a: "map_of (open_fds s) (m_fd this) = Some k \<and> platform s = Windows \<and> m_timeout this \<le> 0 \<and>
    k \<notin> snd ` set (os_locks s) \<and>
    (\<forall>t. clock s \<le> t \<and> t < clock s + d \<longrightarrow> locked_elsewhere s t k) \<and>
    \<not> locked_elsewhere s (clock s + d) k \<and> d < 30"
  then have "locking_loop 30 (m_fd this) 0 s =
           (0, take_lock (s\<lparr>clock := clock s + d, slept := slept s @ replicate d 1\<rparr>) (m_fd this))"
    by (elim conjE) (rule locking_loop_succeeds)
  moreover from a have "platform s = Windows" "m_timeout this \<le> 0" by simp_all
  ultimately show "lock_blocking this s =
        Some (True, take_lock (s\<lparr>clock := clock s + d, slept := slept s @ replicate d 1\<rparr>)
                      (m_fd this))"
    by (simp add: lock_blocking_windows_default)
qed

lemmas wait_defs =
  contended_start_def contended_process_def held_start_def held_process_def
  windows_process_def windows_contended_def waiting_owner_def start_process_def

lemma windows_held:
  "map_of (open_fds windows_process) (m_fd waiting_owner) = Some [''w'', ''env'', ''env.lock'']"
  "platform windows_process = Windows"
  "m_timeout waiting_owner = 0"
  "clock windows_process = 0"
  "slept windows_process = []"
  "\<forall>t. locked_elsewhere windows_process t [''w'', ''env'', ''env.lock'']"
  by (simp_all add: wait_defs)

lemma windows_waiting:
  "map_of (open_fds windows_contended) (m_fd waiting_owner) = Some [''w'', ''env'', ''env.lock'']"
  "platform windows_contended = Windows"
  "clock windows_contended = 0"
  "slept windows_contended = []"
  "[''w'', ''env'', ''env.lock''] \<notin> snd ` set (os_locks windows_contended)"
  "\<forall>t. t < 7 \<longrightarrow> locked_elsewhere windows_contended t [''w'', ''env'', ''env.lock'']"
  "\<not> locked_elsewhere windows_contended 7 [''w'', ''env'', ''env.lock'']"
  by (simp_all add: wait_defs)

lemma posix_held:
  "map_of (open_fds held_process) (m_fd waiting_owner) = Some [''w'', ''env'', ''env.lock'']"
  "platform held_process = Posix"
  "clock held_process = 0"
  "\<forall>t. locked_elsewhere held_process t [''w'', ''env'', ''env.lock'']"
  by (simp_all add: wait_defs)

lemma posix_contended:
  "map_of (open_fds contended_process) (m_fd waiting_owner) = Some [''w'', ''env'', ''env.lock'']"
  "platform contended_process = Posix"
  "clock contended_process = 0"
  "\<forall>t. t < 7 \<longrightarrow> locked_elsewhere contended_process t [''w'', ''env'', ''env.lock'']"
  "\<not> locked_elsewhere contended_process 7 [''w'', ''env'', ''env.lock'']"
  by (simp_all add: wait_defs)

lemma contended_ctor:
  "fs_exists contended_start ''/w/env''"
  "lockfile_path_for contended_start ''/w/env'' = ''/w/env/env.lock''"
  "fs_exists contended_start ''/w/env/env.lock''"
  "os_open ''/w/env/env.lock'' contended_start = (3, contended_process)"
  "lock_non_blocking waiting_owner contended_process = Some (False, contended_process)"
      apply (simp add: wait_defs path_eval fs_eval)
     apply (simp add: lockfile_path_for_def wait_defs path_eval fs_eval)
    apply (simp add: wait_defs path_eval fs_eval)
   apply (simp add: os_open_def fresh_fd_def wait_defs path_eval fs_eval)
  apply (simp add: lock_non_blocking_def is_locked_def lock_def set_fd_lock_def try_lock_def
      lock_free_def Let_def wait_defs)
  done

lemma held_ctor:
  "fs_exists held_start ''/w/env''"
  "lockfile_path_for held_start ''/w/env'' = ''/w/env/env.lock''"
  "fs_exists held_start ''/w/env/env.lock''"
  "os_open ''/w/env/env.lock'' held_start = (3, held_process)"
  "lock_non_blocking (waiting_owner\<lparr>m_timeout := 5\<rparr>) held_process = Some (False, held_process)"
  "snd (snd (unlock (waiting_owner\<lparr>m_timeout := 5\<rparr>) (held_process\<lparr>clock := 5\<rparr>)))
     = held_start\<lparr>clock := 5\<rparr>"
       apply (simp add: wait_defs path_eval fs_eval)
      apply (simp add: lockfile_path_for_def wait_defs path_eval fs_eval)
     apply (simp add: wait_defs path_eval fs_eval)
    apply (simp add: os_open_def fresh_fd_def wait_defs path_eval fs_eval)
   apply (simp add: lock_non_blocking_def is_locked_def lock_def set_fd_lock_def try_lock_def
      lock_free_def Let_def wait_defs)
  apply (simp add: unlock_def remove_lockfile_def close_fd_def os_close_def wait_defs)
  done

text \<open>
  The claim as stated fails on Windows: with a timeout of zero and the lock held by
  another process for ever, the blocking attempt returns false after 30 seconds.
\<close>

theorem blocking_attempt_windows_default:
  "platform windows_process = Windows \<and> m_timeout waiting_owner = 0 \<and>
   (\<forall>t. locked_elsewhere windows_process t [''w'', ''env'', ''env.lock'']) \<and>
   lock_blocking waiting_owner windows_process =
     Some (False, windows_process\<lparr>clock := 30, slept := replicate 30 1\<rparr>)"
proof -
  have held: "\<forall>t. clock windows_process \<le> t \<and> t < clock windows_process + 30 \<longrightarrow>
      locked_elsewhere windows_process t [''w'', ''env'', ''env.lock'']"
    using windows_held(6) by blast
  have "locking_loop 30 (m_fd waiting_owner) 0 windows_process =
           ((if (30::nat) = 0 then 0 else - 1),
            windows_process\<lparr>clock := clock windows_process + 30,
                             slept := slept windows_process @ replicate 30 1\<rparr>)"
    by (rule locking_loop_expires [OF windows_held(1) held])
  then have "lock_blocking waiting_owner windows_process =
     Some (False, windows_process\<lparr>clock := 30, slept := replicate 30 1\<rparr>)"
    by (simp add: lock_blocking_windows_default windows_held)
  with windows_held show ?thesis by blast
qed

theorem blocking_attempt_bounds_witness:
  "lock_blocking waiting_owner held_process = None \<and>
   lock_blocking waiting_owner contended_process
     = Some (True, take_lock (contended_process\<lparr>clock := 7\<rparr>) 3) \<and>
   lock_blocking (waiting_owner\<lparr>m_timeout := 5\<rparr>) held_process
     = Some (False, held_process\<lparr>clock := 5\<rparr>) \<and>
   lock_blocking (waiting_owner\<lparr>m_timeout := 9\<rparr>) contended_process
     = Some (True, take_lock (contended_process\<lparr>clock := 7\<rparr>) 3) \<and>
   lock_blocking (waiting_owner\<lparr>m_timeout := 5\<rparr>) windows_process
     = Some (False, windows_process\<lparr>clock := 5, slept := replicate 5 1\<rparr>) \<and>
   lock_blocking (waiting_owner\<lparr>m_timeout := 9\<rparr>) windows_contended
     = Some (True, take_lock (windows_contended\<lparr>clock := 7, slept := replicate 7 1\<rparr>) 3) \<and>
   lock_blocking waiting_owner windows_process
     = Some (False, windows_process\<lparr>clock := 30, slept := replicate 30 1\<rparr>) \<and>
   lock_blocking waiting_owner windows_contended
     = Some (True, take_lock (windows_contended\<lparr>clock := 7, slept := replicate 7 1\<rparr>) 3) \<and>
   LockFileOwner_new ''/w/env'' 0 contended_start
     = Some (Inr (waiting_owner\<lparr>m_locked := True\<rparr>),
             take_lock (contended_process\<lparr>clock := 7\<rparr>) 3) \<and>
   LockFileOwner_new ''/w/env'' 5 held_start
     = Some (Inl (lock_error (cannot_set_message ''/w/env'')), held_start\<lparr>clock := 5\<rparr>)"
proof -
  let ?k = "[''w'', ''env'', ''env.lock'']"
  note t = blocking_attempt_bounds
  note never = t [where s = held_process and this = waiting_owner and k = ?k,
     THEN conjunct2, THEN conjunct2, THEN conjunct2, THEN conjunct2, THEN conjunct2,
     THEN conjunct1]
  have w1: "lock_blocking waiting_owner held_process = None"
    using never posix_held by (simp add: waiting_owner_def)
  note waits = t [where s = contended_process and this = waiting_owner and k = ?k and d = 7,
     THEN conjunct2, THEN conjunct2, THEN conjunct2, THEN conjunct2, THEN conjunct2,
     THEN conjunct2, THEN conjunct1]
  have w2: "lock_blocking waiting_owner contended_process
     = Some (True, take_lock (contended_process\<lparr>clock := 7\<rparr>) 3)"
    using waits posix_contended by (simp add: waiting_owner_def)
  note expires = t [where s = held_process and this = "waiting_owner\<lparr>m_timeout := 5\<rparr>" and k = ?k,
     THEN conjunct2, THEN conjunct1]
  have w3: "lock_blocking (waiting_owner\<lparr>m_timeout := 5\<rparr>) held_process
     = Some (False, held_process\<lparr>clock := 5\<rparr>)"
    using expires posix_held by (simp add: waiting_owner_def)
  note intime = t [where s = contended_process and this = "waiting_owner\<lparr>m_timeout := 9\<rparr>"
       and k = ?k and d = 7,
     THEN conjunct2, THEN conjunct2, THEN conjunct1]
  have w4: "lock_blocking (waiting_owner\<lparr>m_timeout := 9\<rparr>) contended_process
     = Some (True, take_lock (contended_process\<lparr>clock := 7\<rparr>) 3)"
    using intime posix_contended by (simp add: waiting_owner_def)
  note wexpires = t [where s = windows_process and this = "waiting_owner\<lparr>m_timeout := 5\<rparr>"
       and k = ?k,
     THEN conjunct2, THEN conjunct2, THEN conjunct2, THEN conjunct1]
  have w5: "lock_blocking (waiting_owner\<lparr>m_timeout := 5\<rparr>) windows_process
     = Some (False, windows_process\<lparr>clock := 5, slept := replicate 5 1\<rparr>)"
    using wexpires windows_held by (simp add: waiting_owner_def)
  note wintime = t [where s = windows_contended and this = "waiting_owner\<lparr>m_timeout := 9\<rparr>"
       and k = ?k and d = 7,
     THEN conjunct2, THEN conjunct2, THEN conjunct2, THEN conjunct2, THEN conjunct1]
  have w6: "lock_blocking (waiting_owner\<lparr>m_timeout := 9\<rparr>) windows_contended
     = Some (True, take_lock (windows_contended\<lparr>clock := 7, slept := replicate 7 1\<rparr>) 3)"
    using wintime windows_waiting by (simp add: waiting_owner_def)
  note wdefault = t [where s = windows_process and this = waiting_owner and k = ?k,
     THEN conjunct2, THEN conjunct2, THEN conjunct2, THEN conjunct2, THEN conjunct2,
     THEN conjunct2, THEN conjunct2, THEN conjunct1]
  have w7: "lock_blocking waiting_owner windows_process
     = Some (False, windows_process\<lparr>clock := 30, slept := replicate 30 1\<rparr>)"
    using wdefault windows_held by simp
  note wlate = t [where s = windows_contended and this = waiting_owner and k = ?k and d = 7,
     THEN conjunct2, THEN conjunct2, THEN conjunct2, THEN conjunct2, THEN conjunct2,
     THEN conjunct2, THEN conjunct2, THEN conjunct2]
  have w8: "lock_blocking waiting_owner windows_contended
     = Some (True, take_lock (windows_contended\<lparr>clock := 7, slept := replicate 7 1\<rparr>) 3)"
    using wlate windows_waiting by (simp add: waiting_owner_def)
  have own: "\<lparr>m_path = ''/w/env'', m_lockfile_path = lockfile_path_for contended_start ''/w/env'',
              m_timeout = 0, m_fd = 3, m_locked = False,
              m_lockfile_existed = fs_exists contended_start
                (lockfile_path_for contended_start ''/w/env'')\<rparr> = waiting_owner"
    by (simp add: contended_ctor waiting_owner_def)
  note ctor = t [where ?s0.0 = contended_start and p = "''/w/env''" and fd = 3
       and ?s1.0 = contended_process and tmo = 0 and ?s2.0 = contended_process,
     THEN conjunct1, unfolded own]
  have w9: "LockFileOwner_new ''/w/env'' 0 contended_start
     = Some (Inr (waiting_owner\<lparr>m_locked := True\<rparr>),
             take_lock (contended_process\<lparr>clock := 7\<rparr>) 3)"
    using ctor contended_ctor w2 by (simp add: waiting_owner_def)
  have own5: "\<lparr>m_path = ''/w/env'', m_lockfile_path = lockfile_path_for held_start ''/w/env'',
              m_timeout = 5, m_fd = 3, m_locked = False,
              m_lockfile_existed = fs_exists held_start
                (lockfile_path_for held_start ''/w/env'')\<rparr> = waiting_owner\<lparr>m_timeout := 5\<rparr>"
    by (simp add: held_ctor waiting_owner_def)
  note ctor5 = t [where ?s0.0 = held_start and p = "''/w/env''" and fd = 3
       and ?s1.0 = held_process and tmo = 5 and ?s2.0 = held_process,
     THEN conjunct1, unfolded own5]
  have w10: "LockFileOwner_new ''/w/env'' 5 held_start
     = Some (Inl (lock_error (cannot_set_message ''/w/env'')), held_start\<lparr>clock := 5\<rparr>)"
    using ctor5 held_ctor w3 by simp
  from w1 w2 w3 w4 w5 w6 w7 w8 w9 w10 show ?thesis by blast
qed

end
